theory Spec2Isabelle
  imports Main "HOL-Library.Sublist"
begin

section \<open>The deep crawler of sitesweep-scanner (src/server.js)\<close>

text \<open>
  A shallow embedding of \<^verbatim>\<open>normalizeUrl\<close>, \<^verbatim>\<open>extractPageContent\<close>,
  \<^verbatim>\<open>discoverLinks\<close>, \<^verbatim>\<open>extractSocials\<close> and \<^verbatim>\<open>deepCrawl\<close>.

  Strings. A JavaScript string is a sequence of UTF-16 code units. The model uses HOL's
  \<^typ>\<open>string\<close>; a \<^typ>\<open>char\<close> is read as the code unit of the same number, so the model
  covers the strings whose code units are below 256. Every character the code tests for
  literally is ASCII.

  What the JavaScript platform supplies (the WHATWG URL parser behind \<^verbatim>\<open>new URL\<close>, the
  regular-expression engine behind \<^verbatim>\<open>String.prototype.match\<close>) is a parameter of the
  model, collected in the record \<open>runtime\<close>. What the browser supplies (the DOM of a
  loaded page, the outcome of a navigation, the clock) is a parameter too.
\<close>

subsection \<open>String helpers of the JavaScript library, as the code uses them\<close>

text \<open>White space as \<^verbatim>\<open>String.prototype.trim\<close> and the regex class \<^verbatim>\<open>\s\<close> see it, among
  the code units below 256: TAB, LF, VT, FF, CR, SPACE and NO-BREAK SPACE.\<close>

definition is_space :: "char \<Rightarrow> bool" where
  "is_space c \<longleftrightarrow> c \<in> set [CHR 0x09, CHR 0x0A, CHR 0x0B, CHR 0x0C, CHR 0x0D, CHR 0x20, CHR 0xA0]"

definition trim :: "string \<Rightarrow> string" where
  "trim s = rev (dropWhile is_space (rev (dropWhile is_space s)))"

text \<open>Case folding of a regular expression with the flag \<^verbatim>\<open>i\<close> (and without \<^verbatim>\<open>u\<close>): a
  code unit matches an ASCII letter of the pattern exactly when it is that letter in upper
  or lower case.\<close>

definition ascii_lower :: "char \<Rightarrow> char" where
  "ascii_lower c =
     (let n = (of_char c :: nat) in if 65 \<le> n \<and> n \<le> 90 then char_of (n + 32) else c)"

text \<open>\<^verbatim>\<open>s.startsWith(p)\<close> is \<^term>\<open>prefix p s\<close>, \<^verbatim>\<open>s.endsWith(p)\<close> is \<^term>\<open>suffix p s\<close>,
  \<^verbatim>\<open>s.includes(p)\<close> is \<^term>\<open>sublist p s\<close>.\<close>

text \<open>\<^verbatim>\<open>s.split(c)[0]\<close> for a one-character separator: the part before its first
  occurrence (the whole string when there is none).\<close>

definition split_first :: "char \<Rightarrow> string \<Rightarrow> string" where
  "split_first c s = takeWhile (\<lambda>x. x \<noteq> c) s"

text \<open>\<^verbatim>\<open>s.replace(pat, rep)\<close> with a string pattern: the first occurrence only.\<close>

fun replace_first :: "string \<Rightarrow> string \<Rightarrow> string \<Rightarrow> string" where
  "replace_first pat rep [] = (if pat = [] then rep else [])"
| "replace_first pat rep (c # cs) =
     (if prefix pat (c # cs) then rep @ drop (length pat) (c # cs)
      else c # replace_first pat rep cs)"

text \<open>A JavaScript \<^verbatim>\<open>Set\<close> keeps its members in insertion order, and
  \<^verbatim>\<open>[...new Set(xs)]\<close> keeps the first occurrence of each member.\<close>

definition set_add :: "'a list \<Rightarrow> 'a \<Rightarrow> 'a list" where
  "set_add s x = (if x \<in> set s then s else s @ [x])"

definition new_Set :: "'a list \<Rightarrow> 'a list" where
  "new_Set xs = foldl set_add [] xs"

subsection \<open>The platform: URL parser and regular-expression matches\<close>

text \<open>The fields of a \<^verbatim>\<open>URL\<close> object the code reads.\<close>

record url =
  href :: string
  protocol :: string
  hostname :: string

text \<open>\<open>url_parse s base\<close> is \<^verbatim>\<open>new URL(s, base)\<close> (\<^verbatim>\<open>new URL(s)\<close> when the base is
  \<open>None\<close>); \<open>None\<close> is the \<^verbatim>\<open>TypeError\<close> it throws. \<open>match_emails\<close> and
  \<open>match_phones\<close> are \<^verbatim>\<open>text.match(emailRegex) || []\<close> and
  \<^verbatim>\<open>text.match(phoneRegex) || []\<close>.\<close>

record runtime =
  url_parse :: "string \<Rightarrow> string option \<Rightarrow> url option"
  match_emails :: "string \<Rightarrow> string list"
  match_phones :: "string \<Rightarrow> string list"

subsection \<open>normalizeUrl\<close>

datatype error =
    URL_required          \<comment> \<open>\<^verbatim>\<open>'URL is required'\<close>\<close>
  | Invalid_URL           \<comment> \<open>\<^verbatim>\<open>'Invalid URL. Provide a valid http(s) URL.'\<close>\<close>
  | Only_HTTP_allowed     \<comment> \<open>\<^verbatim>\<open>'Only HTTP/HTTPS protocols are allowed.'\<close>\<close>
  | Target_unreachable    \<comment> \<open>\<^verbatim>\<open>'Target site unreachable or timed out.'\<close>\<close>
  | Evaluation_failed     \<comment> \<open>an exception on the loaded seed page (\<^verbatim>\<open>page.evaluate\<close>, \<^verbatim>\<open>close\<close>)\<close>
  | Browser_failed        \<comment> \<open>an exception of \<^verbatim>\<open>launch\<close>, \<^verbatim>\<open>newContext\<close> or \<^verbatim>\<open>context.newPage\<close>\<close>

text \<open>The test \<^verbatim>\<open>/^https?:\/\//i.test(trimmed)\<close>.\<close>

definition has_http_prefix :: "string \<Rightarrow> bool" where
  "has_http_prefix s \<longleftrightarrow>
     prefix ''http://'' (map ascii_lower s) \<or> prefix ''https://'' (map ascii_lower s)"

definition withProtocol :: "string \<Rightarrow> string" where
  "withProtocol trimmed = (if has_http_prefix trimmed then trimmed else ''https://'' @ trimmed)"

definition normalizeUrl :: "runtime \<Rightarrow> string \<Rightarrow> error + url" where
  "normalizeUrl P rawUrl =
     (let trimmed = trim rawUrl in
      if trimmed = [] then Inl URL_required
      else case url_parse P (withProtocol trimmed) None of
             None \<Rightarrow> Inl Invalid_URL
           | Some u \<Rightarrow>
               if protocol u \<notin> set [''http:'', ''https:''] then Inl Only_HTTP_allowed
               else Inr u)"

text \<open>The error taxonomy of the specification, and the class each error of
  \<^verbatim>\<open>normalizeUrl\<close> falls in.\<close>

datatype spec_error = InvalidInput | InvalidURL | TargetUnreachable | OtherFailure

fun spec_class :: "error \<Rightarrow> spec_error" where
  "spec_class URL_required = InvalidInput"
| "spec_class Invalid_URL = InvalidURL"
| "spec_class Only_HTTP_allowed = InvalidURL"
| "spec_class Target_unreachable = TargetUnreachable"
| "spec_class Evaluation_failed = OtherFailure"
| "spec_class Browser_failed = OtherFailure"

definition fails_with :: "error + 'a \<Rightarrow> spec_error \<Rightarrow> bool" where
  "fails_with r e = (case r of Inl x \<Rightarrow> spec_class x = e | Inr _ \<Rightarrow> False)"

subsection \<open>More string helpers\<close>

text \<open>\<^verbatim>\<open>String.prototype.toLowerCase\<close> on code units below 256: the ASCII capitals and the
  Latin-1 capitals (0xC0 to 0xDE without the multiplication sign 0xD7) move up by 32.\<close>

definition lower_unit :: "char \<Rightarrow> char" where
  "lower_unit c =
     (let n = (of_char c :: nat) in
      if (65 \<le> n \<and> n \<le> 90) \<or> (192 \<le> n \<and> n \<le> 222 \<and> n \<noteq> 215) then char_of (n + 32)
      else c)"

definition toLowerCase :: "string \<Rightarrow> string" where
  "toLowerCase s = map lower_unit s"

text \<open>The class \<^verbatim>\<open>\d\<close>; \<^verbatim>\<open>p.replace(/\D/g, '')\<close> keeps the digits.\<close>

definition is_digit :: "char \<Rightarrow> bool" where
  "is_digit c \<longleftrightarrow> (let n = (of_char c :: nat) in 48 \<le> n \<and> n \<le> 57)"

text \<open>\<^verbatim>\<open>content.replace(/\s+/g, ' ')\<close>: every maximal run of white space becomes one
  space.\<close>

function collapse_ws :: "string \<Rightarrow> string" where
  "collapse_ws [] = []"
| "collapse_ws (c # cs) =
     (if is_space c then CHR '' '' # collapse_ws (dropWhile is_space cs)
      else c # collapse_ws cs)"
  by pat_completeness auto
termination
  by (relation "measure length") (auto simp: length_dropWhile_le less_Suc_eq_le)

text \<open>\<^verbatim>\<open>s.replace(/\/$/, '')\<close>: one trailing slash is removed.\<close>

definition strip_trailing_slash :: "string \<Rightarrow> string" where
  "strip_trailing_slash s = (if s \<noteq> [] \<and> last s = CHR ''/'' then butlast s else s)"

text \<open>\<^verbatim>\<open>url.startsWith('http://') || url.startsWith('https://')\<close>.\<close>

definition is_http_url :: "string \<Rightarrow> bool" where
  "is_http_url u \<longleftrightarrow> prefix ''http://'' u \<or> prefix ''https://'' u"

subsection \<open>The DOM of a loaded page, as the extraction routines read it\<close>

text \<open>One call \<^verbatim>\<open>addImage(url, width, height, alt)\<close>.\<close>

record image_candidate =
  cand_url :: string
  cand_width :: nat
  cand_height :: nat
  cand_alt :: string

text \<open>
  \<^item> \<open>location_href\<close>: \<^verbatim>\<open>window.location.href\<close>, the URL the page ended up at;
  \<^item> \<open>document_title\<close>: \<^verbatim>\<open>document.title || ''\<close>;
  \<^item> \<open>body_innerText\<close>: \<^verbatim>\<open>document.body?.innerText || ''\<close>;
  \<^item> \<open>heading_texts\<close>: \<^verbatim>\<open>innerText\<close> of the \<^verbatim>\<open>h1\<close> elements, then of the
    \<^verbatim>\<open>h2\<close>, then of the \<^verbatim>\<open>h3\<close> elements;
  \<^item> \<open>main_innerText\<close>: \<^verbatim>\<open>innerText\<close> of the first landmark that matches
    (\<^verbatim>\<open>main\<close>, \<^verbatim>\<open>article\<close>, \<^verbatim>\<open>[role="main"]\<close>, \<^verbatim>\<open>.content\<close>, \<^verbatim>\<open>#content\<close>,
    \<^verbatim>\<open>.main-content\<close>), \<open>None\<close> when none matches;
  \<^item> \<open>image_candidates\<close>: the calls of \<^verbatim>\<open>addImage\<close> that the walk over \<^verbatim>\<open>img\<close>
    elements, background images and \<^verbatim>\<open>picture source\<close> elements makes, in order;
  \<^item> \<open>anchor_hrefs\<close>: \<^verbatim>\<open>a.getAttribute('href')\<close> of every \<^verbatim>\<open>a\<close> element, in document
    order (\<open>None\<close> is \<^verbatim>\<open>null\<close>).
\<close>

record dom =
  location_href :: string
  document_title :: string
  body_innerText :: string
  heading_texts :: "string list"
  main_innerText :: "string option"
  image_candidates :: "image_candidate list"
  anchor_hrefs :: "string option list"

subsection \<open>extractPageContent\<close>

record image_entry =
  entry_url :: string
  entry_alt :: string
  entry_width :: nat
  entry_height :: nat
  entry_area :: nat

record image =
  img_url :: string
  img_alt :: string
  img_width :: nat
  img_height :: nat

record page_content =
  url :: string
  title :: string
  headings :: "string list"
  content :: string
  images :: "image list"
  emails :: "string list"
  phones :: "string list"

definition extractEmails :: "runtime \<Rightarrow> string \<Rightarrow> string list" where
  "extractEmails P text = new_Set (match_emails P text)"

definition extractPhones :: "runtime \<Rightarrow> string \<Rightarrow> string list" where
  "extractPhones P text =
     new_Set (filter (\<lambda>p. length (filter is_digit p) \<ge> 8) (match_phones P text))"

text \<open>The inner \<^verbatim>\<open>resolveUrl\<close>: against the current page's URL, the argument itself when
  the parser throws.\<close>

definition resolveUrl :: "runtime \<Rightarrow> string \<Rightarrow> string \<Rightarrow> string" where
  "resolveUrl P currentPageUrl relativeUrl =
     (case url_parse P relativeUrl (Some currentPageUrl) of
        Some u \<Rightarrow> href u
      | None \<Rightarrow> relativeUrl)"

text \<open>\<^verbatim>\<open>addImage\<close>; the state is the array \<^verbatim>\<open>images\<close> and the set \<^verbatim>\<open>seenUrls\<close>.\<close>

definition addImage ::
  "runtime \<Rightarrow> string \<Rightarrow> image_entry list \<times> string list \<Rightarrow> image_candidate
     \<Rightarrow> image_entry list \<times> string list" where
  "addImage P currentPageUrl st c =
     (let (imgs, seenUrls) = st in
      if cand_url c = [] then st
      else
        let u0 = trim (cand_url c);
            u = (if \<not> prefix ''http://'' u0 \<and> \<not> prefix ''https://'' u0
                 then resolveUrl P currentPageUrl u0 else u0)
        in
        if \<not> prefix ''http://'' u \<and> \<not> prefix ''https://'' u then st
        else if prefix ''data:'' u \<or> suffix ''.svg'' (toLowerCase u) then st
        else if u \<in> set seenUrls then st
        else if cand_width c > 0 \<and> cand_height c > 0
                \<and> (cand_width c < 50 \<or> cand_height c < 50) then st
        else (imgs @ [\<lparr>entry_url = u, entry_alt = cand_alt c,
                        entry_width = cand_width c, entry_height = cand_height c,
                        entry_area = cand_width c * cand_height c\<rparr>],
              set_add seenUrls u))"

text \<open>The final safety check, the stable sort by area (largest first), the cut to ten and
  the projection.\<close>

definition sortedImages :: "image_entry list \<Rightarrow> image list" where
  "sortedImages imgs =
     map (\<lambda>e. \<lparr>img_url = entry_url e, img_alt = entry_alt e,
               img_width = entry_width e, img_height = entry_height e\<rparr>)
       (take 10
         (sort_key (\<lambda>e. - int (entry_area e))
           (filter (\<lambda>e. entry_url e \<noteq> [] \<and> is_http_url (entry_url e)) imgs)))"

text \<open>The anchors \<^verbatim>\<open>a[href^="mailto:"]\<close> and \<^verbatim>\<open>a[href^="tel:"]\<close>, and what is pushed for
  them.\<close>

definition hrefs_with_prefix :: "string \<Rightarrow> dom \<Rightarrow> string list" where
  "hrefs_with_prefix p d = filter (prefix p) (List.map_filter id (anchor_hrefs d))"

definition mailto_entries :: "dom \<Rightarrow> string list" where
  "mailto_entries d =
     filter (\<lambda>email. email \<noteq> [])
       (map (\<lambda>h. split_first CHR ''?'' (replace_first ''mailto:'' [] h))
         (hrefs_with_prefix ''mailto:'' d))"

definition tel_entries :: "dom \<Rightarrow> string list" where
  "tel_entries d =
     filter (\<lambda>phone. phone \<noteq> [])
       (map (\<lambda>h. trim (replace_first ''tel:'' [] h)) (hrefs_with_prefix ''tel:'' d))"

definition extractPageContent :: "runtime \<Rightarrow> dom \<Rightarrow> page_content" where
  "extractPageContent P d =
     (let currentPageUrl = location_href d;
          bodyText = body_innerText d;
          content0 = (case main_innerText d of
                        None \<Rightarrow> bodyText
                      | Some m \<Rightarrow> if m = [] then bodyText else m);
          content1 = trim (collapse_ws content0);
          imgs = fst (foldl (addImage P currentPageUrl) ([], []) (image_candidates d))
      in \<lparr>url = currentPageUrl,
          title = trim (document_title d),
          headings = filter (\<lambda>t. t \<noteq> []) (map trim (heading_texts d)),
          content = take 3000 content1,
          images = sortedImages imgs,
          emails = new_Set (extractEmails P bodyText @ mailto_entries d),
          phones = new_Set (extractPhones P bodyText @ tel_entries d)\<rparr>)"

subsection \<open>discoverLinks\<close>

text \<open>The test \<^verbatim>\<open>/\.(pdf|jpg|jpeg|png|gif|zip|rar|doc|docx)$/i.test(cleanUrl)\<close>.\<close>

definition denylist :: "string list" where
  "denylist = [''pdf'', ''jpg'', ''jpeg'', ''png'', ''gif'', ''zip'', ''rar'', ''doc'', ''docx'']"

definition has_denied_extension :: "string \<Rightarrow> bool" where
  "has_denied_extension s \<longleftrightarrow>
     (\<exists>e \<in> set denylist. suffix (CHR ''.'' # e) (map ascii_lower s))"

text \<open>\<^verbatim>\<open>absoluteUrl.split('#')[0].replace(/\/$/, '')\<close>.\<close>

definition cleanUrl :: "string \<Rightarrow> string" where
  "cleanUrl absoluteUrl = strip_trailing_slash (split_first CHR ''#'' absoluteUrl)"

text \<open>The inner \<^verbatim>\<open>isInternalUrl\<close>; \<open>False\<close> when the parser throws.\<close>

definition isInternalUrl :: "runtime \<Rightarrow> string \<Rightarrow> string \<Rightarrow> string \<Rightarrow> bool" where
  "isInternalUrl P currentPageUrl currentHostname testUrl =
     (case url_parse P testUrl (Some currentPageUrl) of
        Some testObj \<Rightarrow> hostname testObj = currentHostname
      | None \<Rightarrow> False)"

text \<open>The skip test on the raw attribute.\<close>

definition skipped_href :: "string \<Rightarrow> bool" where
  "skipped_href h \<longleftrightarrow>
     prefix ''#'' h \<or> prefix ''javascript:'' h \<or> prefix ''mailto:'' h \<or> prefix ''tel:'' h"

text \<open>The body of \<^verbatim>\<open>anchors.forEach\<close>; the state is the set \<^verbatim>\<open>links\<close>.\<close>

definition discover_step ::
  "runtime \<Rightarrow> string \<Rightarrow> string \<Rightarrow> string list \<Rightarrow> string option \<Rightarrow> string list" where
  "discover_step P currentPageUrl currentHostname links a =
     (case a of
        None \<Rightarrow> links
      | Some h \<Rightarrow>
          if h = [] then links
          else if skipped_href h then links
          else (case url_parse P h (Some currentPageUrl) of
                  None \<Rightarrow> links
                | Some u \<Rightarrow>
                    let absoluteUrl = href u in
                    if isInternalUrl P currentPageUrl currentHostname absoluteUrl then
                      let c = cleanUrl absoluteUrl in
                      if \<not> has_denied_extension c then set_add links c else links
                    else links))"

text \<open>\<^verbatim>\<open>discoverLinks\<close>; the argument \<^verbatim>\<open>baseUrl\<close> of the source is not used by it.
  \<^verbatim>\<open>new URL(currentPageUrl)\<close> is outside every \<^verbatim>\<open>try\<close>, so its exception is one of the
  evaluation.\<close>

definition discoverLinks :: "runtime \<Rightarrow> dom \<Rightarrow> error + string list" where
  "discoverLinks P d =
     (let currentPageUrl = location_href d in
      case url_parse P currentPageUrl None of
        None \<Rightarrow> Inl Evaluation_failed
      | Some cu \<Rightarrow>
          Inr (foldl (discover_step P currentPageUrl (hostname cu)) [] (anchor_hrefs d)))"

subsection \<open>extractSocials\<close>

datatype social_platform = Facebook | Instagram | LinkedIn | Twitter | YouTube | XING

record social =
  platform :: social_platform
  social_url :: string

definition classify_social :: "string \<Rightarrow> social_platform option" where
  "classify_social absoluteUrl =
     (let h = toLowerCase absoluteUrl in
      if sublist ''facebook.com/'' h \<and> \<not> sublist ''/sharer'' h then Some Facebook
      else if sublist ''instagram.com/'' h then Some Instagram
      else if sublist ''linkedin.com/'' h then Some LinkedIn
      else if sublist ''twitter.com/'' h \<or> sublist ''x.com/'' h then Some Twitter
      else if sublist ''youtube.com/'' h \<or> sublist ''youtu.be/'' h then Some YouTube
      else if sublist ''xing.com/'' h then Some XING
      else None)"

definition social_step :: "runtime \<Rightarrow> string \<Rightarrow> social list \<Rightarrow> string option \<Rightarrow> social list" where
  "social_step P currentPageUrl socials a =
     (case a of
        None \<Rightarrow> socials
      | Some hrefAttr \<Rightarrow>
          if hrefAttr = [] then socials
          else (case url_parse P hrefAttr (Some currentPageUrl) of
                  None \<Rightarrow> socials
                | Some u \<Rightarrow>
                    (case classify_social (href u) of
                       None \<Rightarrow> socials
                     | Some pf \<Rightarrow> socials @ [\<lparr>platform = pf, social_url = href u\<rparr>])))"

text \<open>The deduplicating \<^verbatim>\<open>filter\<close> with its set \<^verbatim>\<open>seen\<close>.\<close>

fun dedup_socials :: "string list \<Rightarrow> social list \<Rightarrow> social list" where
  "dedup_socials seen [] = []"
| "dedup_socials seen (s # ss) =
     (if social_url s \<in> set seen then dedup_socials seen ss
      else s # dedup_socials (set_add seen (social_url s)) ss)"

definition extractSocials :: "runtime \<Rightarrow> dom \<Rightarrow> social list" where
  "extractSocials P d =
     dedup_socials [] (foldl (social_step P (location_href d)) [] (anchor_hrefs d))"

subsection \<open>deepCrawl\<close>

text \<open>
  What a visit of a URL gives: no tab can be opened (\<^verbatim>\<open>context.newPage()\<close> throws; for
  the seed this also stands for an exception of \<^verbatim>\<open>chromium.launch\<close> or
  \<^verbatim>\<open>browser.newContext\<close>), the navigation fails (\<^verbatim>\<open>page.goto\<close> throws), the page loads
  but a later step on it throws (\<^verbatim>\<open>page.evaluate\<close>; for the seed also
  \<^verbatim>\<open>homePage.close()\<close>), or the page loads with a DOM. The web is a function from the URL
  navigated to; the DOM's \<open>location_href\<close> is where the navigation ended, after
  redirects. Closing the tab of a subpage cannot fail the visit: the source swallows its
  exception.

  The clock: \<open>elapsed_before_batch i\<close> is \<^verbatim>\<open>Date.now() - startTime\<close> as read in the loop
  iteration with index \<open>i\<close>, \<open>elapsed_at_end\<close> the one read for \<^verbatim>\<open>crawlDuration\<close>.
\<close>

datatype visit_outcome = Tab_failed | Navigation_failed | Evaluate_failed | Loaded dom

record clock =
  elapsed_before_batch :: "nat \<Rightarrow> int"
  elapsed_at_end :: int

definition MAX_PAGES :: nat where "MAX_PAGES = 10"
definition CONCURRENT_TABS :: nat where "CONCURRENT_TABS = 3"
definition HARVEST_TIMEOUT_MS :: int where "HARVEST_TIMEOUT_MS = 45000"

record report_page =
  r_url :: string
  r_title :: string
  r_headings :: "string list"
  r_content :: string
  r_images :: "string list"

text \<open>\<open>crawlDuration\<close> holds the number of milliseconds; the source renders it with the
  suffix \<^verbatim>\<open>ms\<close>.\<close>

record crawl_report =
  domain :: string
  global_emails :: "string list"
  global_phones :: "string list"
  global_socials :: "social list"
  pages :: "report_page list"
  pagesVisited :: nat
  totalImages :: nat
  crawlDuration :: int

text \<open>Step 2: \<^verbatim>\<open>[...new Set(discoveredLinks)].filter(...).slice(0, MAX_PAGES)\<close>.\<close>

definition uniqueLinks_of :: "string \<Rightarrow> string list \<Rightarrow> string list" where
  "uniqueLinks_of baseUrl discoveredLinks =
     take MAX_PAGES
       (filter (\<lambda>link. link \<noteq> baseUrl \<and> link \<noteq> baseUrl @ ''/'') (new_Set discoveredLinks))"

text \<open>One element of \<^verbatim>\<open>batchPromises\<close>. \<^verbatim>\<open>context.newPage()\<close> is awaited before the
  \<^verbatim>\<open>try\<close>, so its exception rejects the promise; an exception of \<^verbatim>\<open>page.goto\<close> or of
  \<^verbatim>\<open>extractPageContent\<close> is caught and the promise resolves to \<^verbatim>\<open>null\<close>.\<close>

definition visit_subpage ::
  "runtime \<Rightarrow> (string \<Rightarrow> visit_outcome) \<Rightarrow> string \<Rightarrow> error + page_content option" where
  "visit_subpage P W link =
     (case W link of
        Tab_failed \<Rightarrow> Inl Browser_failed
      | Navigation_failed \<Rightarrow> Inr None
      | Evaluate_failed \<Rightarrow> Inr None
      | Loaded d \<Rightarrow> Inr (Some (extractPageContent P d)))"

text \<open>\<^verbatim>\<open>Promise.all\<close>: the list of the results, or the rejection when one of the promises
  rejects (every rejection here carries the same error).\<close>

fun Promise_all :: "(error + 'a) list \<Rightarrow> error + 'a list" where
  "Promise_all [] = Inr []"
| "Promise_all (p # ps) =
     (case p of
        Inl e \<Rightarrow> Inl e
      | Inr x \<Rightarrow> (case Promise_all ps of Inl e \<Rightarrow> Inl e | Inr xs \<Rightarrow> Inr (x # xs)))"

text \<open>One batch: \<^verbatim>\<open>(await Promise.all(batchPromises)).filter(Boolean)\<close>.\<close>

definition visit_batch ::
  "runtime \<Rightarrow> (string \<Rightarrow> visit_outcome) \<Rightarrow> string list \<Rightarrow> error + page_content list" where
  "visit_batch P W batch =
     (case Promise_all (map (visit_subpage P W) batch) of
        Inl e \<Rightarrow> Inl e
      | Inr batchResults \<Rightarrow> Inr (List.map_filter id batchResults))"

text \<open>Step 3, the loop \<^verbatim>\<open>for (let i = 0; i < uniqueLinks.length; i += CONCURRENT_TABS)\<close>
  from index \<open>i\<close> on, with the contents collected so far.\<close>

function visit_batches ::
  "runtime \<Rightarrow> (string \<Rightarrow> visit_outcome) \<Rightarrow> (nat \<Rightarrow> int) \<Rightarrow> string list \<Rightarrow> nat
     \<Rightarrow> page_content list \<Rightarrow> error + page_content list" where
  "visit_batches P W elapsed uniqueLinks i subpageContents =
     (if i < length uniqueLinks then
        if elapsed i > HARVEST_TIMEOUT_MS - 10000 then Inr subpageContents
        else (case visit_batch P W (take CONCURRENT_TABS (drop i uniqueLinks)) of
                Inl e \<Rightarrow> Inl e
              | Inr batchResults \<Rightarrow>
                  visit_batches P W elapsed uniqueLinks (i + CONCURRENT_TABS)
                    (subpageContents @ batchResults))
      else Inr subpageContents)"
  by pat_completeness auto
termination
  by (relation "measure (\<lambda>(P, W, elapsed, uniqueLinks, i, acc). length uniqueLinks - i)")
     (auto simp: CONCURRENT_TABS_def)

declare visit_batches.simps [simp del]

text \<open>Step 4, the aggregation.\<close>

definition report_page_of :: "page_content \<Rightarrow> report_page" where
  "report_page_of page =
     \<lparr>r_url = url page, r_title = title page, r_headings = headings page,
      r_content = content page,
      r_images = filter (\<lambda>u. u \<noteq> [] \<and> is_http_url u) (map img_url (images page))\<rparr>"

definition build_report ::
  "string \<Rightarrow> social list \<Rightarrow> page_content list \<Rightarrow> int \<Rightarrow> crawl_report" where
  "build_report dom_name socials allPages duration =
     \<lparr>domain = dom_name,
      global_emails = foldl set_add [] (concat (map emails allPages)),
      global_phones = foldl set_add [] (concat (map phones allPages)),
      global_socials = socials,
      pages = map report_page_of allPages,
      pagesVisited = length allPages,
      totalImages = sum_list (map (\<lambda>p. length (images p)) allPages),
      crawlDuration = duration\<rparr>"

definition deepCrawl ::
  "runtime \<Rightarrow> (string \<Rightarrow> visit_outcome) \<Rightarrow> clock \<Rightarrow> string \<Rightarrow> error + crawl_report" where
  "deepCrawl P W clk inputUrl =
     (case normalizeUrl P inputUrl of
        Inl e \<Rightarrow> Inl e
      | Inr targetUrl \<Rightarrow>
          let baseUrl = href targetUrl in
          (case W baseUrl of
             Tab_failed \<Rightarrow> Inl Browser_failed
           | Navigation_failed \<Rightarrow> Inl Target_unreachable
           | Evaluate_failed \<Rightarrow> Inl Evaluation_failed
           | Loaded homePage \<Rightarrow>
               let homeContent = extractPageContent P homePage in
               (case discoverLinks P homePage of
                  Inl e \<Rightarrow> Inl e
                | Inr discoveredLinks \<Rightarrow>
                    let socials = extractSocials P homePage;
                        uniqueLinks = uniqueLinks_of baseUrl discoveredLinks
                    in (case visit_batches P W (elapsed_before_batch clk) uniqueLinks 0 [] of
                          Inl e \<Rightarrow> Inl e
                        | Inr subpageContents \<Rightarrow>
                            let allPages = homeContent # subpageContents
                            in Inr (build_report (hostname targetUrl) socials allPages
                                      (elapsed_at_end clk))))))"

subsection \<open>A concrete runtime for the instances below\<close>

text \<open>
  A stand-in for the WHATWG URL parser on the inputs the concrete instances use:
  \<^item> lower-case \<^verbatim>\<open>http://\<close> and \<^verbatim>\<open>https://\<close> URLs with a plain host name and an optional
    path, query or fragment: the path \<^verbatim>\<open>/\<close> is added to a URL without one, an empty host
    is rejected;
  \<^item> URLs of another lower-case scheme (\<^verbatim>\<open>tel:\<close>, \<^verbatim>\<open>mailto:\<close>, \<^verbatim>\<open>data:\<close>): the \<^verbatim>\<open>href\<close>
    is the input, the host name is empty;
  \<^item> absolute-path references (\<^verbatim>\<open>/about\<close>) against an http(s) base;
  \<^item> path-relative references of plain segments (\<^verbatim>\<open>img/a.png\<close>) against an http(s) base:
    they replace what follows the last slash of the base's path.
  On these the real parser returns the same \<^verbatim>\<open>href\<close>, \<^verbatim>\<open>protocol\<close> and \<^verbatim>\<open>hostname\<close>. The
  regular-expression matches of this runtime are empty.
\<close>

definition demo_absolute :: "string \<Rightarrow> url option" where
  "demo_absolute s =
     (let scheme = (if prefix ''https://'' s then ''https:''
                    else if prefix ''http://'' s then ''http:'' else []);
          rest = drop (length scheme + 2) s;
          host = takeWhile (\<lambda>c. c \<notin> set ''/?#'') rest;
          tail = drop (length host) rest
      in if scheme = [] \<or> host = [] then None
         else Some \<lparr>href = scheme @ ''//'' @ host @ (if prefix ''/'' tail then tail else CHR ''/'' # tail),
                    protocol = scheme, hostname = host\<rparr>)"

definition demo_scheme :: "string \<Rightarrow> string" where
  "demo_scheme s =
     (let name = takeWhile (\<lambda>c. c \<in> set ''abcdefghijklmnopqrstuvwxyz'') s
      in if name \<noteq> [] \<and> prefix (name @ '':'') s then name @ '':'' else [])"

definition demo_url_parse :: "string \<Rightarrow> string option \<Rightarrow> url option" where
  "demo_url_parse s base =
     (if demo_scheme s = ''http:'' \<or> demo_scheme s = ''https:'' then demo_absolute s
      else if demo_scheme s \<noteq> [] then
        Some \<lparr>href = s, protocol = demo_scheme s, hostname = []\<rparr>
      else
        (case base of
           None \<Rightarrow> None
         | Some b \<Rightarrow>
             (case demo_absolute b of
                None \<Rightarrow> None
              | Some u \<Rightarrow>
                  if prefix ''/'' s then demo_absolute (protocol u @ ''//'' @ hostname u @ s)
                  else
                    let p = takeWhile (\<lambda>c. c \<notin> set ''?#'') (href u);
                        dir = rev (dropWhile (\<lambda>c. c \<noteq> CHR ''/'') (rev p))
                    in demo_absolute (dir @ s))))"

definition demo_runtime :: runtime where
  "demo_runtime = \<lparr>url_parse = demo_url_parse, match_emails = (\<lambda>t. []), match_phones = (\<lambda>t. [])\<rparr>"

text \<open>A page with the given location and anchors and nothing else, a small web (the seed
  \<^verbatim>\<open>https://example.com/\<close> links to \<^verbatim>\<open>/a\<close>, which loads, and to \<^verbatim>\<open>/b\<close>, whose
  navigation fails) and a clock that always reads the same elapsed time.\<close>

definition demo_page :: "string \<Rightarrow> string option list \<Rightarrow> dom" where
  "demo_page loc hrefs =
     \<lparr>location_href = loc, document_title = ''Demo'', body_innerText = [],
      heading_texts = [], main_innerText = None, image_candidates = [],
      anchor_hrefs = hrefs\<rparr>"

definition demo_web :: "string \<Rightarrow> visit_outcome" where
  "demo_web link =
     (if link = ''https://example.com/''
        then Loaded (demo_page ''https://example.com/'' [Some ''/a'', Some ''/b''])
      else if link = ''https://example.com/a''
        then Loaded (demo_page ''https://example.com/a'' [])
      else Navigation_failed)"

definition demo_clock :: "int \<Rightarrow> clock" where
  "demo_clock ms = \<lparr>elapsed_before_batch = (\<lambda>i. ms), elapsed_at_end = ms\<rparr>"

text \<open>A web given by the list of its pages (every other navigation fails) and a page with
  image candidates.\<close>

definition web_of :: "(string \<times> dom) list \<Rightarrow> string \<Rightarrow> visit_outcome" where
  "web_of site link = (case map_of site link of Some d \<Rightarrow> Loaded d | None \<Rightarrow> Navigation_failed)"

definition demo_image_page :: dom where
  "demo_image_page =
     \<lparr>location_href = ''https://example.com/'', document_title = ''Demo'', body_innerText = [],
      heading_texts = [], main_innerText = None,
      image_candidates =
        [\<lparr>cand_url = ''/img/a.png'', cand_width = 0, cand_height = 0, cand_alt = ''a''\<rparr>,
         \<lparr>cand_url = ''data:image/png;base64,AAAA'', cand_width = 0, cand_height = 0, cand_alt = []\<rparr>,
         \<lparr>cand_url = ''https://cdn.example.com/b.jpg'', cand_width = 60, cand_height = 50, cand_alt = ''b''\<rparr>,
         \<lparr>cand_url = ''img/relative.png'', cand_width = 0, cand_height = 0, cand_alt = []\<rparr>],
      anchor_hrefs = []\<rparr>"

text \<open>The page of the scenario with 15 internal links, 2 links to other hosts and 3 links
  to PDF files, and the page a seed \<^verbatim>\<open>example.com\<close> ends at when it redirects to
  \<^verbatim>\<open>www.example.com\<close>.\<close>

definition demo_scenario_page :: dom where
  "demo_scenario_page =
     demo_page ''https://example.com/''
       (map Some
         [''/p1'', ''/p2'', ''/p3'', ''https://other.org/x'', ''/p4'', ''/f1.pdf'', ''/p5'',
          ''/p6'', ''/F2.PDF'', ''/p7'', ''/p8'', ''https://evil.net/y'', ''/p9'', ''/pa'',
          ''/f3.pdf#page=2'', ''/pb'', ''/pc'', ''/pd'', ''/pe'', ''/pf''])"

definition demo_redirected_page :: dom where
  "demo_redirected_page =
     demo_page ''https://www.example.com/''
       [Some ''/about'', Some ''https://example.com/contact'']"


definition demo_bad_image_page :: dom where
  "demo_bad_image_page =
     \<lparr>location_href = ''https://example.com/'', document_title = ''Demo'', body_innerText = [],
      heading_texts = [], main_innerText = None,
      image_candidates =
        [\<lparr>cand_url = ''https://'', cand_width = 0, cand_height = 0, cand_alt = []\<rparr>],
      anchor_hrefs = []\<rparr>"

definition demo_contact_site :: "(string \<times> dom) list" where
  "demo_contact_site =
     [(''https://example.com/'',
       (demo_page ''https://example.com/'' [Some ''tel:123'', Some ''/c''])),
      (''https://example.com/c'',
       (demo_page ''https://example.com/c'' [Some ''tel:456'', Some ''mailto:not-an-email?subject=hi'']))]"

subsection \<open>Facts about the string helpers\<close>

lemma trim_mid:
  "dropWhile is_space s = trim s @ rev (takeWhile is_space (rev (dropWhile is_space s)))"
proof -
  let ?m = "dropWhile is_space s"
  have "rev ?m = takeWhile is_space (rev ?m) @ dropWhile is_space (rev ?m)"
    by simp
  then have "?m = rev (dropWhile is_space (rev ?m)) @ rev (takeWhile is_space (rev ?m))"
    by (metis rev_append rev_rev_ident)
  then show ?thesis
    by (simp add: trim_def)
qed

lemma trim_decompose:
  "\<exists>a b. s = a @ trim s @ b \<and> (\<forall>c\<in>set a. is_space c) \<and> (\<forall>c\<in>set b. is_space c)"
proof -
  let ?a = "takeWhile is_space s"
  let ?m = "dropWhile is_space s"
  let ?b = "rev (takeWhile is_space (rev ?m))"
  have "s = ?a @ ?m" by simp
  with trim_mid [of s] have "s = ?a @ trim s @ ?b" by simp
  moreover have "\<forall>c\<in>set ?a. is_space c"
    by (auto dest: set_takeWhileD)
  moreover have "\<forall>c\<in>set ?b. is_space c"
    by (auto dest: set_takeWhileD)
  ultimately show ?thesis by blast
qed

lemma trim_hd: "trim s \<noteq> [] \<Longrightarrow> \<not> is_space (hd (trim s))"
proof -
  assume ne: "trim s \<noteq> []"
  let ?m = "dropWhile is_space s"
  from ne trim_mid [of s] have m_ne: "?m \<noteq> []"
    by (metis append_is_Nil_conv)
  then have hd_m: "\<not> is_space (hd ?m)" by (rule hd_dropWhile)
  from ne trim_mid [of s] have "hd ?m = hd (trim s)" by (metis hd_append2)
  with hd_m show ?thesis by simp
qed

lemma trim_last: "trim s \<noteq> [] \<Longrightarrow> \<not> is_space (last (trim s))"
proof -
  assume ne: "trim s \<noteq> []"
  let ?r = "dropWhile is_space (rev (dropWhile is_space s))"
  have r: "trim s = rev ?r" by (simp add: trim_def)
  with ne have "?r \<noteq> []" by simp
  then have "\<not> is_space (hd ?r)" by (rule hd_dropWhile)
  moreover have "last (trim s) = hd ?r" using r \<open>?r \<noteq> []\<close> by (simp add: last_rev)
  ultimately show ?thesis by simp
qed

lemma withProtocol_prepends:
  "withProtocol t = ''https://'' @ t \<longleftrightarrow> \<not> has_http_prefix t"
proof
  assume "withProtocol t = ''https://'' @ t"
  then show "\<not> has_http_prefix t"
    by (auto simp: withProtocol_def split: if_splits)
next
  assume "\<not> has_http_prefix t"
  then show "withProtocol t = ''https://'' @ t" by (simp add: withProtocol_def)
qed

subsection \<open>Facts about sets as lists and about the batch loop\<close>

lemma set_foldl_set_add: "set (foldl set_add acc xs) = set acc \<union> set xs"
  by (induction xs arbitrary: acc) (auto simp: set_add_def)

lemma distinct_foldl_set_add: "distinct acc \<Longrightarrow> distinct (foldl set_add acc xs)"
  by (induction xs arbitrary: acc) (auto simp: set_add_def)

lemma set_new_Set: "set (new_Set xs) = set xs"
  by (simp add: new_Set_def set_foldl_set_add)

lemma distinct_new_Set: "distinct (new_Set xs)"
  by (simp add: new_Set_def distinct_foldl_set_add)

lemma length_uniqueLinks_of: "length (uniqueLinks_of b ls) \<le> MAX_PAGES"
  by (simp add: uniqueLinks_of_def)

lemma map_filter_id_map: "List.map_filter id (map f xs) = List.map_filter f xs"
  by (induction xs) (simp_all add: map_filter_simps split: option.splits)

lemma set_map_filter_eq: "set (List.map_filter f xs) = {y. \<exists>x. x \<in> set xs \<and> f x = Some y}"
  by (induction xs) (auto split: option.splits)

lemma map_filter_append: "List.map_filter f (xs @ ys) = List.map_filter f xs @ List.map_filter f ys"
  by (simp add: map_filter_def)

lemma Promise_all_map_Inr: "Promise_all (map Inr xs) = Inr xs"
  by (induction xs) simp_all

lemma Promise_all_Inr: "Promise_all ps = Inr xs \<Longrightarrow> ps = map Inr xs"
  by (induction ps arbitrary: xs) (auto split: sum.splits)

lemma Promise_all_Inl: "Promise_all ps = Inl e \<Longrightarrow> Inl e \<in> set ps"
  by (induction ps) (auto split: sum.splits)

lemma visit_subpage_no_tab_failure:
  "W l \<noteq> Tab_failed \<Longrightarrow>
   visit_subpage P W l
     = Inr (case W l of Loaded d \<Rightarrow> Some (extractPageContent P d) | _ \<Rightarrow> None)"
  by (simp add: visit_subpage_def split: visit_outcome.splits)

lemma visit_subpage_tab_failure: "visit_subpage P W l = Inl e \<longleftrightarrow> e = Browser_failed \<and> W l = Tab_failed"
  by (auto simp: visit_subpage_def split: visit_outcome.splits)

lemma visit_batch_no_tab_failure:
  assumes "\<forall>l\<in>set b. W l \<noteq> Tab_failed"
  shows "visit_batch P W b
     = Inr (List.map_filter
              (\<lambda>l. case W l of Loaded d \<Rightarrow> Some (extractPageContent P d) | _ \<Rightarrow> None) b)"
proof -
  let ?f = "\<lambda>l. case W l of Loaded d \<Rightarrow> Some (extractPageContent P d) | _ \<Rightarrow> None"
  from assms have "map (visit_subpage P W) b = map Inr (map ?f b)"
    by (simp add: visit_subpage_no_tab_failure)
  then have "Promise_all (map (visit_subpage P W) b) = Inr (map ?f b)"
    by (simp only: Promise_all_map_Inr)
  then show ?thesis
    by (simp add: visit_batch_def map_filter_id_map)
qed

lemma visit_batch_Inl:
  "visit_batch P W b = Inl e \<longleftrightarrow> e = Browser_failed \<and> (\<exists>l\<in>set b. W l = Tab_failed)"
proof
  assume "visit_batch P W b = Inl e"
  then have "Promise_all (map (visit_subpage P W) b) = Inl e"
    by (simp add: visit_batch_def split: sum.splits)
  then have "Inl e \<in> set (map (visit_subpage P W) b)" by (rule Promise_all_Inl)
  then obtain l where "l \<in> set b" and "visit_subpage P W l = Inl e" by auto
  then show "e = Browser_failed \<and> (\<exists>l\<in>set b. W l = Tab_failed)"
    by (auto simp: visit_subpage_tab_failure)
next
  assume a: "e = Browser_failed \<and> (\<exists>l\<in>set b. W l = Tab_failed)"
  show "visit_batch P W b = Inl e"
  proof (cases "visit_batch P W b")
    case (Inl x)
    then have "Promise_all (map (visit_subpage P W) b) = Inl x"
      by (simp add: visit_batch_def split: sum.splits)
    then have "Inl x \<in> set (map (visit_subpage P W) b)" by (rule Promise_all_Inl)
    then obtain k where "visit_subpage P W k = Inl x" by auto
    then have "x = Browser_failed" by (simp add: visit_subpage_tab_failure)
    with Inl a show ?thesis by simp
  next
    case (Inr cs)
    then obtain rs where "Promise_all (map (visit_subpage P W) b) = Inr rs"
      by (auto simp: visit_batch_def split: sum.splits)
    then have m: "map (visit_subpage P W) b = map Inr rs" by (rule Promise_all_Inr)
    from a obtain l where l: "l \<in> set b" and "W l = Tab_failed" by blast
    then have "visit_subpage P W l = Inl Browser_failed" by (simp add: visit_subpage_def)
    with l have "Inl Browser_failed \<in> set (map (visit_subpage P W) b)" by force
    with m show ?thesis by auto
  qed
qed

lemma visit_batch_Inr:
  "visit_batch P W b = Inr cs \<longleftrightarrow>
     (\<forall>l\<in>set b. W l \<noteq> Tab_failed)
     \<and> cs = List.map_filter
               (\<lambda>l. case W l of Loaded d \<Rightarrow> Some (extractPageContent P d) | _ \<Rightarrow> None) b"
proof (cases "\<forall>l\<in>set b. W l \<noteq> Tab_failed")
  case True
  with visit_batch_no_tab_failure [OF True, of P] show ?thesis by auto
next
  case False
  then have "visit_batch P W b = Inl Browser_failed" by (simp add: visit_batch_Inl)
  with False show ?thesis by simp
qed

lemma visit_batch_total:
  "\<forall>l\<in>set b. W l \<noteq> Tab_failed \<Longrightarrow> \<exists>cs. visit_batch P W b = Inr cs"
  by (simp add: visit_batch_Inr)

lemma length_visit_batch: "visit_batch P W b = Inr cs \<Longrightarrow> length cs \<le> length b"
  by (simp add: visit_batch_Inr map_filter_def)



lemma visit_batch_append:
  "visit_batch P W xs = Inr a \<Longrightarrow> visit_batch P W ys = Inr b \<Longrightarrow>
   visit_batch P W (xs @ ys) = Inr (a @ b)"
  by (auto simp: visit_batch_Inr map_filter_append)


lemma loaded_case_Some:
  "(case W l of Loaded d \<Rightarrow> Some (g d) | _ \<Rightarrow> None) = Some y \<longleftrightarrow> (\<exists>d. W l = Loaded d \<and> y = g d)"
  by (cases "W l") auto

lemma visit_batch_elems:
  "visit_batch P W b = Inr cs \<Longrightarrow>
   set cs = {extractPageContent P d | l d. l \<in> set b \<and> W l = Loaded d}"
proof -
  assume "visit_batch P W b = Inr cs"
  then have "set cs = {y. \<exists>l. l \<in> set b
      \<and> (case W l of Loaded d \<Rightarrow> Some (extractPageContent P d) | _ \<Rightarrow> None) = Some y}"
    by (simp add: visit_batch_Inr set_map_filter_eq)
  also have "\<dots> = {extractPageContent P d | l d. l \<in> set b \<and> W l = Loaded d}"
    by (auto simp: loaded_case_Some)
  finally show ?thesis .
qed

lemma visit_batches_stop:
  "i < length ls \<Longrightarrow> e i > HARVEST_TIMEOUT_MS - 10000 \<Longrightarrow>
   visit_batches P W e ls i acc = Inr acc"
  by (subst visit_batches.simps) simp

lemma visit_batches_go:
  "i < length ls \<Longrightarrow> \<not> e i > HARVEST_TIMEOUT_MS - 10000 \<Longrightarrow>
   visit_batches P W e ls i acc =
     (case visit_batch P W (take CONCURRENT_TABS (drop i ls)) of
        Inl err \<Rightarrow> Inl err
      | Inr batchResults \<Rightarrow>
          visit_batches P W e ls (i + CONCURRENT_TABS) (acc @ batchResults))"
  by (subst visit_batches.simps) simp

lemma visit_batches_done:
  "\<not> i < length ls \<Longrightarrow> visit_batches P W e ls i acc = Inr acc"
  by (subst visit_batches.simps) simp

lemma visit_batches_prefix:
  "visit_batches P W e ls i acc = Inr res \<Longrightarrow>
   \<exists>n cs. visit_batch P W (take n (drop i ls)) = Inr cs \<and> res = acc @ cs"
proof (induction P W e ls i acc rule: visit_batches.induct)
  case (1 P W e ls i acc)
  show ?case
  proof (cases "i < length ls \<and> \<not> e i > HARVEST_TIMEOUT_MS - 10000")
    case True
    let ?b = "take CONCURRENT_TABS (drop i ls)"
    from True "1.prems" obtain br where br: "visit_batch P W ?b = Inr br"
      and rec: "visit_batches P W e ls (i + CONCURRENT_TABS) (acc @ br) = Inr res"
      by (auto simp: visit_batches_go split: sum.splits)
    from "1.IH" [OF _ _ br rec] True obtain n cs where
      n: "visit_batch P W (take n (drop (i + CONCURRENT_TABS) ls)) = Inr cs"
      and res: "res = (acc @ br) @ cs"
      by auto
    have "take (CONCURRENT_TABS + n) (drop i ls) = ?b @ take n (drop (i + CONCURRENT_TABS) ls)"
      by (simp add: take_add add.commute)
    with visit_batch_append [OF br n]
    have "visit_batch P W (take (CONCURRENT_TABS + n) (drop i ls)) = Inr (br @ cs)" by simp
    with res show ?thesis by auto
  next
    case False
    with "1.prems" have "res = acc"
      by (cases "i < length ls") (simp_all add: visit_batches_stop visit_batches_done)
    moreover have "visit_batch P W (take 0 (drop i ls)) = Inr []"
      by (simp add: visit_batch_Inr map_filter_def)
    ultimately show ?thesis by (metis append_Nil2)
  qed
qed

lemma length_visit_batches:
  assumes "visit_batches P W e ls i acc = Inr res"
  shows "length res \<le> length acc + (length ls - i)"
proof -
  from visit_batches_prefix [OF assms] obtain n cs where
    n: "visit_batch P W (take n (drop i ls)) = Inr cs" and res: "res = acc @ cs" by blast
  from length_visit_batch [OF n] have "length cs \<le> length ls - i" by simp
  with res show ?thesis by simp
qed

lemma visit_batches_total:
  "\<forall>l\<in>set ls. W l \<noteq> Tab_failed \<Longrightarrow> \<exists>res. visit_batches P W e ls i acc = Inr res"
proof (induction P W e ls i acc rule: visit_batches.induct)
  case (1 P W e ls i acc)
  show ?case
  proof (cases "i < length ls \<and> \<not> e i > HARVEST_TIMEOUT_MS - 10000")
    case True
    let ?b = "take CONCURRENT_TABS (drop i ls)"
    have "set ?b \<subseteq> set ls" by (meson in_set_dropD in_set_takeD subsetI)
    with "1.prems" have "\<forall>l\<in>set ?b. W l \<noteq> Tab_failed" by blast
    then obtain br where br: "visit_batch P W ?b = Inr br" using visit_batch_total by blast
    from "1.IH" [OF _ _ br "1.prems"] True
    obtain res where "visit_batches P W e ls (i + CONCURRENT_TABS) (acc @ br) = Inr res" by auto
    with True br show ?thesis by (simp add: visit_batches_go)
  next
    case False
    then show ?thesis
      by (cases "i < length ls") (simp_all add: visit_batches_stop visit_batches_done)
  qed
qed


subsection \<open>Facts about deepCrawl\<close>

lemma deepCrawl_Inr:
  "deepCrawl P W clk input = Inr r \<longleftrightarrow>
     (\<exists>t home ls sub. normalizeUrl P input = Inr t \<and> W (href t) = Loaded home
        \<and> discoverLinks P home = Inr ls
        \<and> visit_batches P W (elapsed_before_batch clk) (uniqueLinks_of (href t) ls) 0 [] = Inr sub
        \<and> r = build_report (hostname t) (extractSocials P home)
                 (extractPageContent P home # sub) (elapsed_at_end clk))"
  by (auto simp: deepCrawl_def Let_def split: sum.splits visit_outcome.splits)


lemma deepCrawl_report:
  assumes "deepCrawl P W clk input = Inr r"
    and "normalizeUrl P input = Inr t" and "W (href t) = Loaded home"
    and "discoverLinks P home = Inr ls"
  shows "\<exists>n cs. visit_batch P W (take n (uniqueLinks_of (href t) ls)) = Inr cs
           \<and> r = build_report (hostname t) (extractSocials P home)
                    (extractPageContent P home # cs) (elapsed_at_end clk)"
proof -
  from assms obtain sub where
    sub: "visit_batches P W (elapsed_before_batch clk) (uniqueLinks_of (href t) ls) 0 [] = Inr sub"
    and r: "r = build_report (hostname t) (extractSocials P home)
                 (extractPageContent P home # sub) (elapsed_at_end clk)"
    by (auto simp: deepCrawl_Inr)
  from visit_batches_prefix [OF sub] r show ?thesis by auto
qed

subsection \<open>Facts about images and contact entries\<close>

lemma is_http_url_not_data: "is_http_url u \<Longrightarrow> \<not> prefix ''data:'' u \<and> \<not> prefix ''/'' u \<and> u \<noteq> []"
  by (auto simp: is_http_url_def prefix_def)

lemma addImage_http:
  "\<forall>e\<in>set (fst st). is_http_url (entry_url e) \<Longrightarrow>
   \<forall>e\<in>set (fst (addImage P cur st c)). is_http_url (entry_url e)"
  by (cases st) (auto simp: addImage_def Let_def is_http_url_def)

lemma foldl_addImage_http:
  "\<forall>e\<in>set (fst st). is_http_url (entry_url e) \<Longrightarrow>
   \<forall>e\<in>set (fst (foldl (addImage P cur) st cs)). is_http_url (entry_url e)"
proof (induction cs arbitrary: st)
  case Nil
  then show ?case by simp
next
  case (Cons c cs)
  from Cons.prems have "\<forall>e\<in>set (fst (addImage P cur st c)). is_http_url (entry_url e)"
    by (rule addImage_http)
  then show ?case using Cons.IH by simp
qed

lemma sortedImages_http: "\<forall>i\<in>set (sortedImages imgs). is_http_url (img_url i)"
  by (auto simp: sortedImages_def dest!: in_set_takeD)

lemma report_page_images_http: "\<forall>u\<in>set (r_images (report_page_of pc)). is_http_url u"
  by (simp add: report_page_of_def)

lemma replace_first_prefix: "prefix p h \<Longrightarrow> replace_first p [] h = drop (length p) h"
  by (cases h) auto

lemma tel_entries_member:
  "Some h \<in> set (anchor_hrefs d) \<Longrightarrow> prefix ''tel:'' h \<Longrightarrow> trim (drop 4 h) \<noteq> [] \<Longrightarrow>
   trim (drop 4 h) \<in> set (tel_entries d)"
proof -
  assume h: "Some h \<in> set (anchor_hrefs d)" and p: "prefix ''tel:'' h" and ne: "trim (drop 4 h) \<noteq> []"
  from h p have "h \<in> set (hrefs_with_prefix ''tel:'' d)"
    by (force simp: hrefs_with_prefix_def map_filter_def)
  moreover from p have "trim (replace_first ''tel:'' [] h) = trim (drop 4 h)"
    by (simp add: replace_first_prefix eval_nat_numeral)
  ultimately show ?thesis using ne
    by (force simp: tel_entries_def)
qed

lemma mailto_entries_member:
  "Some h \<in> set (anchor_hrefs d) \<Longrightarrow> prefix ''mailto:'' h \<Longrightarrow>
   split_first CHR ''?'' (drop 7 h) \<noteq> [] \<Longrightarrow>
   split_first CHR ''?'' (drop 7 h) \<in> set (mailto_entries d)"
proof -
  assume h: "Some h \<in> set (anchor_hrefs d)" and p: "prefix ''mailto:'' h"
    and ne: "split_first CHR ''?'' (drop 7 h) \<noteq> []"
  from h p have "h \<in> set (hrefs_with_prefix ''mailto:'' d)"
    by (force simp: hrefs_with_prefix_def map_filter_def)
  moreover from p have "split_first CHR ''?'' (replace_first ''mailto:'' [] h)
      = split_first CHR ''?'' (drop 7 h)"
    by (simp add: replace_first_prefix eval_nat_numeral)
  ultimately show ?thesis using ne
    by (force simp: mailto_entries_def)
qed

lemma phones_extractPageContent:
  "set (phones (extractPageContent P d)) = set (extractPhones P (body_innerText d)) \<union> set (tel_entries d)"
  by (simp add: extractPageContent_def Let_def set_new_Set)

lemma emails_extractPageContent:
  "set (emails (extractPageContent P d)) = set (extractEmails P (body_innerText d)) \<union> set (mailto_entries d)"
  by (simp add: extractPageContent_def Let_def set_new_Set)

lemma distinct_contacts:
  "distinct (phones (extractPageContent P d)) \<and> distinct (emails (extractPageContent P d))"
  by (simp add: extractPageContent_def Let_def distinct_new_Set)

lemma extractPhones_digits: "\<forall>p\<in>set (extractPhones P body). 8 \<le> length (filter is_digit p)"
  by (simp add: extractPhones_def set_new_Set)

lemma build_report_globals:
  "pc \<in> set allPages \<Longrightarrow>
   set (phones pc) \<subseteq> set (global_phones (build_report dn so allPages du))
   \<and> set (emails pc) \<subseteq> set (global_emails (build_report dn so allPages du))"
  by (auto simp: build_report_def set_foldl_set_add)

subsection \<open>Facts about discoverLinks\<close>

lemma discover_step_cases:
  "discover_step P cur host links a = links
   \<or> (\<exists>h u. a = Some h \<and> h \<noteq> [] \<and> \<not> skipped_href h
         \<and> url_parse P h (Some cur) = Some u
         \<and> isInternalUrl P cur host (href u)
         \<and> \<not> has_denied_extension (cleanUrl (href u))
         \<and> discover_step P cur host links a = set_add links (cleanUrl (href u)))"
  by (auto simp: discover_step_def Let_def split: option.splits)

lemma discover_step_distinct:
  "distinct links \<Longrightarrow> distinct (discover_step P cur host links a)"
  using discover_step_cases [of P cur host links a] by (auto simp: set_add_def)

lemma discover_step_mono: "set links \<subseteq> set (discover_step P cur host links a)"
  using discover_step_cases [of P cur host links a] by (auto simp: set_add_def)

lemma discover_fold_distinct:
  "distinct links \<Longrightarrow> distinct (foldl (discover_step P cur host) links as)"
  by (induction as arbitrary: links) (simp_all add: discover_step_distinct)

lemma discover_fold_mono: "set links \<subseteq> set (foldl (discover_step P cur host) links as)"
proof (induction as arbitrary: links)
  case Nil
  show ?case by simp
next
  case (Cons a as)
  have "set links \<subseteq> set (discover_step P cur host links a)" by (rule discover_step_mono)
  also have "\<dots> \<subseteq> set (foldl (discover_step P cur host) (discover_step P cur host links a) as)"
    by (rule Cons.IH)
  finally show ?case by simp
qed

lemma discover_step_adds:
  assumes "h \<noteq> []" and "\<not> skipped_href h" and "url_parse P h (Some cur) = Some u"
    and "isInternalUrl P cur host (href u)" and "\<not> has_denied_extension (cleanUrl (href u))"
  shows "cleanUrl (href u) \<in> set (discover_step P cur host links (Some h))"
  using assms by (simp add: discover_step_def Let_def set_add_def)

lemma discover_fold_member:
  assumes "Some h \<in> set as" and "h \<noteq> []" and "\<not> skipped_href h"
    and "url_parse P h (Some cur) = Some u"
    and "isInternalUrl P cur host (href u)" and "\<not> has_denied_extension (cleanUrl (href u))"
  shows "cleanUrl (href u) \<in> set (foldl (discover_step P cur host) links as)"
  using assms(1)
proof (induction as arbitrary: links)
  case Nil
  then show ?case by simp
next
  case (Cons a as)
  show ?case
  proof (cases "a = Some h")
    case True
    have "cleanUrl (href u) \<in> set (discover_step P cur host links (Some h))"
      using assms(2-6) by (rule discover_step_adds)
    with True discover_fold_mono [of "discover_step P cur host links a" P cur host as]
    show ?thesis by auto
  next
    case False
    with Cons.prems have "Some h \<in> set as" by simp
    then show ?thesis using Cons.IH by simp
  qed
qed

lemma discover_fold_provenance:
  "x \<in> set (foldl (discover_step P cur host) links as) \<Longrightarrow>
   x \<in> set links
   \<or> (\<exists>h u. Some h \<in> set as \<and> h \<noteq> [] \<and> \<not> skipped_href h
         \<and> url_parse P h (Some cur) = Some u
         \<and> isInternalUrl P cur host (href u)
         \<and> x = cleanUrl (href u) \<and> \<not> has_denied_extension x)"
proof (induction as arbitrary: links)
  case Nil
  then show ?case by simp
next
  case (Cons a as)
  from Cons.prems have "x \<in> set (foldl (discover_step P cur host) (discover_step P cur host links a) as)"
    by simp
  from Cons.IH [OF this] show ?case
  proof
    assume x: "x \<in> set (discover_step P cur host links a)"
    from discover_step_cases [of P cur host links a] show ?thesis
    proof
      assume "discover_step P cur host links a = links"
      with x show ?thesis by simp
    next
      assume "\<exists>h u. a = Some h \<and> h \<noteq> [] \<and> \<not> skipped_href h
         \<and> url_parse P h (Some cur) = Some u
         \<and> isInternalUrl P cur host (href u)
         \<and> \<not> has_denied_extension (cleanUrl (href u))
         \<and> discover_step P cur host links a = set_add links (cleanUrl (href u))"
      then obtain h u where hu: "a = Some h" "h \<noteq> []" "\<not> skipped_href h"
         "url_parse P h (Some cur) = Some u" "isInternalUrl P cur host (href u)"
         "\<not> has_denied_extension (cleanUrl (href u))"
         "discover_step P cur host links a = set_add links (cleanUrl (href u))"
        by blast
      from x hu(7) have "x \<in> set links \<or> x = cleanUrl (href u)"
        by (auto simp: set_add_def split: if_splits)
      then show ?thesis
      proof
        assume "x \<in> set links" then show ?thesis by simp
      next
        assume "x = cleanUrl (href u)"
        with hu have "Some h \<in> set (a # as) \<and> h \<noteq> [] \<and> \<not> skipped_href h
         \<and> url_parse P h (Some cur) = Some u
         \<and> isInternalUrl P cur host (href u)
         \<and> x = cleanUrl (href u) \<and> \<not> has_denied_extension x" by simp
        then show ?thesis by blast
      qed
    qed
  next
    assume "\<exists>h u. Some h \<in> set as \<and> h \<noteq> [] \<and> \<not> skipped_href h
         \<and> url_parse P h (Some cur) = Some u
         \<and> isInternalUrl P cur host (href u)
         \<and> x = cleanUrl (href u) \<and> \<not> has_denied_extension x"
    then show ?thesis by auto
  qed
qed

lemma discoverLinks_Inr:
  "discoverLinks P d = Inr ls \<longleftrightarrow>
     (\<exists>cu. url_parse P (location_href d) None = Some cu
        \<and> ls = foldl (discover_step P (location_href d) (hostname cu)) [] (anchor_hrefs d))"
  by (auto simp: discoverLinks_def Let_def split: option.splits)

lemma set_uniqueLinks_of: "set (uniqueLinks_of b ls) \<subseteq> set ls"
  by (auto simp: uniqueLinks_of_def set_new_Set dest: in_set_takeD)

lemma count_list_distinct: "distinct xs \<Longrightarrow> x \<in> set xs \<Longrightarrow> count_list xs x = 1"
  by (induction xs) auto

lemma cleanUrl_no_hash: "CHR ''#'' \<notin> set (cleanUrl s)"
  by (auto simp: cleanUrl_def strip_trailing_slash_def split_first_def
      dest: in_set_butlastD set_takeWhileD)

section \<open>The claims\<close>

text \<open>
  C9. For every raw input string, \<^verbatim>\<open>normalizeUrl\<close> trims surrounding white space (the
  trimmed string is the input without a white-space prefix and suffix, and neither starts
  nor ends with white space); it fails with the error of the class InvalidInput exactly
  when the trimmed string is empty; it prepends \<^verbatim>\<open>https://\<close> exactly when the trimmed
  string has no case-insensitive \<^verbatim>\<open>http://\<close> or \<^verbatim>\<open>https://\<close> prefix; for a non-empty
  trimmed string it fails with an error of the class InvalidURL exactly when the parser
  rejects the resulting string or the parsed scheme is neither \<^verbatim>\<open>http:\<close> nor \<^verbatim>\<open>https:\<close>;
  otherwise it returns the parsed URL object, which carries the host name. The function is
  pure: its result depends on the runtime and the input only.
\<close>

theorem normalizeUrl_contract:
  "(\<exists>a b. raw = a @ trim raw @ b \<and> (\<forall>c\<in>set a. is_space c) \<and> (\<forall>c\<in>set b. is_space c))
   \<and> (trim raw \<noteq> [] \<longrightarrow> \<not> is_space (hd (trim raw)) \<and> \<not> is_space (last (trim raw)))
   \<and> (fails_with (normalizeUrl P raw) InvalidInput \<longleftrightarrow> trim raw = [])
   \<and> (withProtocol (trim raw) = ''https://'' @ trim raw \<longleftrightarrow> \<not> has_http_prefix (trim raw))
   \<and> (has_http_prefix (trim raw) \<longrightarrow> withProtocol (trim raw) = trim raw)
   \<and> (trim raw \<noteq> [] \<longrightarrow>
        (fails_with (normalizeUrl P raw) InvalidURL \<longleftrightarrow>
           (case url_parse P (withProtocol (trim raw)) None of
              None \<Rightarrow> True
            | Some u \<Rightarrow> protocol u \<noteq> ''http:'' \<and> protocol u \<noteq> ''https:'')))
   \<and> (\<forall>u. normalizeUrl P raw = Inr u \<longleftrightarrow>
          trim raw \<noteq> [] \<and> url_parse P (withProtocol (trim raw)) None = Some u
          \<and> (protocol u = ''http:'' \<or> protocol u = ''https:''))"
proof -
  have c3: "fails_with (normalizeUrl P raw) InvalidInput \<longleftrightarrow> trim raw = []"
    by (auto simp: fails_with_def normalizeUrl_def Let_def split: option.splits)
  have c5: "has_http_prefix (trim raw) \<longrightarrow> withProtocol (trim raw) = trim raw"
    by (simp add: withProtocol_def)
  have c6: "trim raw \<noteq> [] \<longrightarrow>
        (fails_with (normalizeUrl P raw) InvalidURL \<longleftrightarrow>
           (case url_parse P (withProtocol (trim raw)) None of
              None \<Rightarrow> True
            | Some u \<Rightarrow> protocol u \<noteq> ''http:'' \<and> protocol u \<noteq> ''https:''))"
    by (auto simp: fails_with_def normalizeUrl_def Let_def split: option.splits)
  have c7: "\<forall>u. normalizeUrl P raw = Inr u \<longleftrightarrow>
          trim raw \<noteq> [] \<and> url_parse P (withProtocol (trim raw)) None = Some u
          \<and> (protocol u = ''http:'' \<or> protocol u = ''https:'')"
    by (auto simp: normalizeUrl_def Let_def split: option.splits)
  from trim_decompose [of raw] trim_hd [of raw] trim_last [of raw]
    c3 withProtocol_prepends [of "trim raw"] c5 c6 c7
  show ?thesis by blast
qed

theorem normalizeUrl_contract_witness:
  "normalizeUrl demo_runtime ''  example.com '' =
      Inr \<lparr>href = ''https://example.com/'', protocol = ''https:'', hostname = ''example.com''\<rparr>
   \<and> withProtocol ''example.com'' = ''https://example.com''
   \<and> fails_with (normalizeUrl demo_runtime [CHR 0x20, CHR 0x09]) InvalidInput
   \<and> fails_with (normalizeUrl demo_runtime ''https://'') InvalidURL"
proof -
  have a: "trim ''  example.com '' = ''example.com''" by code_simp
  have b: "\<not> has_http_prefix ''example.com''" by code_simp
  have c: "url_parse demo_runtime ''https://example.com'' None =
     Some \<lparr>href = ''https://example.com/'', protocol = ''https:'', hostname = ''example.com''\<rparr>"
    by code_simp
  have d: "trim [CHR 0x20, CHR 0x09] = []" by code_simp
  have e: "trim ''https://'' = ''https://''" by code_simp
  have f: "has_http_prefix ''https://''" by code_simp
  have g: "url_parse demo_runtime ''https://'' None = None" by code_simp
  from normalizeUrl_contract [of "''  example.com ''" demo_runtime] a b c
  have 1: "normalizeUrl demo_runtime ''  example.com '' =
      Inr \<lparr>href = ''https://example.com/'', protocol = ''https:'', hostname = ''example.com''\<rparr>
      \<and> withProtocol ''example.com'' = ''https://example.com''"
    by simp
  from normalizeUrl_contract [of "[CHR 0x20, CHR 0x09]" demo_runtime] d
  have 2: "fails_with (normalizeUrl demo_runtime [CHR 0x20, CHR 0x09]) InvalidInput"
    by simp
  from normalizeUrl_contract [of "''https://''" demo_runtime] e f g
  have 3: "fails_with (normalizeUrl demo_runtime ''https://'') InvalidURL"
    by simp
  from 1 2 3 show ?thesis by simp
qed

text \<open>
  C2. For every crawl whose seed page loads (the input normalizes, the navigation to the
  seed succeeds and its evaluations succeed), every report \<^verbatim>\<open>deepCrawl\<close> returns has at
  least 1 and at most \<open>1 + MAX_PAGES = 11\<close> entries in \<^verbatim>\<open>pages\<close>, the first being the
  seed's record; a report is returned whenever a tab can be opened for every queued link;
  the queue of subpages has at most \<open>MAX_PAGES\<close> entries.
\<close>

theorem pages_length_bounds:
  assumes "normalizeUrl P input = Inr t" and "W (href t) = Loaded home"
    and "discoverLinks P home = Inr ls"
  shows "(\<forall>r. deepCrawl P W clk input = Inr r \<longrightarrow>
            1 \<le> length (pages r) \<and> length (pages r) \<le> 1 + MAX_PAGES
            \<and> hd (pages r) = report_page_of (extractPageContent P home))
    \<and> ((\<forall>l\<in>set (uniqueLinks_of (href t) ls). W l \<noteq> Tab_failed) \<longrightarrow>
          (\<exists>r. deepCrawl P W clk input = Inr r))
    \<and> 1 + MAX_PAGES = 11
    \<and> length (uniqueLinks_of (href t) ls) \<le> MAX_PAGES"
proof -
  let ?q = "uniqueLinks_of (href t) ls"
  have q: "length ?q \<le> MAX_PAGES" by (rule length_uniqueLinks_of)
  have bounds: "\<forall>r. deepCrawl P W clk input = Inr r \<longrightarrow>
            1 \<le> length (pages r) \<and> length (pages r) \<le> 1 + MAX_PAGES
            \<and> hd (pages r) = report_page_of (extractPageContent P home)"
  proof (intro allI impI)
    fix r assume "deepCrawl P W clk input = Inr r"
    with assms obtain sub where
      sub: "visit_batches P W (elapsed_before_batch clk) ?q 0 [] = Inr sub"
      and r: "r = build_report (hostname t) (extractSocials P home)
                 (extractPageContent P home # sub) (elapsed_at_end clk)"
      by (auto simp: deepCrawl_Inr)
    from length_visit_batches [OF sub] have "length sub \<le> length ?q" by simp
    with q have "length sub \<le> MAX_PAGES" by simp
    then show "1 \<le> length (pages r) \<and> length (pages r) \<le> 1 + MAX_PAGES
            \<and> hd (pages r) = report_page_of (extractPageContent P home)"
      by (simp add: r build_report_def)
  qed
  have ex: "(\<forall>l\<in>set ?q. W l \<noteq> Tab_failed) \<longrightarrow> (\<exists>r. deepCrawl P W clk input = Inr r)"
  proof
    assume "\<forall>l\<in>set ?q. W l \<noteq> Tab_failed"
    from visit_batches_total [OF this, of P "elapsed_before_batch clk" 0 "[]"]
    obtain sub where "visit_batches P W (elapsed_before_batch clk) ?q 0 [] = Inr sub" by blast
    with assms show "\<exists>r. deepCrawl P W clk input = Inr r" by (simp add: deepCrawl_Inr)
  qed
  have "1 + MAX_PAGES = 11" by (simp add: MAX_PAGES_def)
  with bounds ex q show ?thesis by blast
qed

theorem pages_length_bounds_witness:
  "\<exists>r. deepCrawl demo_runtime demo_web (demo_clock 1000) ''example.com'' = Inr r
         \<and> 1 \<le> length (pages r) \<and> length (pages r) \<le> 1 + MAX_PAGES"
proof -
  have a: "normalizeUrl demo_runtime ''example.com'' =
     Inr \<lparr>href = ''https://example.com/'', protocol = ''https:'', hostname = ''example.com''\<rparr>"
    by code_simp
  have b: "demo_web (href \<lparr>href = ''https://example.com/'', protocol = ''https:'',
                            hostname = ''example.com''\<rparr>) =
     Loaded (demo_page ''https://example.com/'' [Some ''/a'', Some ''/b''])"
    by (simp add: demo_web_def)
  have c: "discoverLinks demo_runtime (demo_page ''https://example.com/'' [Some ''/a'', Some ''/b''])
     = Inr [''https://example.com/a'', ''https://example.com/b'']"
    by code_simp
  have d: "\<And>l. demo_web l \<noteq> Tab_failed" by (simp add: demo_web_def)
  from pages_length_bounds [where W = demo_web and clk = "demo_clock 1000", OF a b c] d
  show ?thesis by blast
qed








text \<open>
  C3, as the code has it. Every URL in the \<^verbatim>\<open>images\<close> list of a page record of a report
  starts with \<^verbatim>\<open>http://\<close> or \<^verbatim>\<open>https://\<close>; it is not a \<^verbatim>\<open>data:\<close> URI, not a path and not
  empty. This is enforced at extraction time (\<^verbatim>\<open>addImage\<close> resolves against the current
  page and only pushes strings with such a prefix, and the final safety check of
  \<^verbatim>\<open>extractPageContent\<close> filters once more) and, independently, by the filter of the
  report, which holds for any page content whatever its images are.
\<close>

theorem report_images_are_http:
  "(\<forall>e\<in>set (fst (foldl (addImage P cur) ([], []) cs)). is_http_url (entry_url e))
   \<and> (\<forall>i\<in>set (sortedImages imgs). is_http_url (img_url i))
   \<and> (\<forall>i\<in>set (images (extractPageContent P d)). is_http_url (img_url i))
   \<and> (\<forall>u\<in>set (r_images (report_page_of pc)).
         is_http_url u \<and> \<not> prefix ''data:'' u \<and> \<not> prefix ''/'' u \<and> u \<noteq> [])
   \<and> (deepCrawl P W clk input = Inr r \<longrightarrow>
        (\<forall>p\<in>set (pages r). \<forall>u\<in>set (r_images p).
            (prefix ''http://'' u \<or> prefix ''https://'' u) \<and> \<not> prefix ''data:'' u))"
proof -
  have 1: "\<forall>e\<in>set (fst (foldl (addImage P cur) ([], []) cs)). is_http_url (entry_url e)"
    by (rule foldl_addImage_http) simp
  have 3: "\<forall>i\<in>set (images (extractPageContent P d)). is_http_url (img_url i)"
    using sortedImages_http by (simp add: extractPageContent_def Let_def)
  have 4: "\<forall>u\<in>set (r_images (report_page_of pc)).
         is_http_url u \<and> \<not> prefix ''data:'' u \<and> \<not> prefix ''/'' u \<and> u \<noteq> []"
    using report_page_images_http is_http_url_not_data by blast
  have 5: "deepCrawl P W clk input = Inr r \<longrightarrow>
        (\<forall>p\<in>set (pages r). \<forall>u\<in>set (r_images p).
            (prefix ''http://'' u \<or> prefix ''https://'' u) \<and> \<not> prefix ''data:'' u)"
  proof
    assume "deepCrawl P W clk input = Inr r"
    then obtain dn so allPages du where "r = build_report dn so allPages du"
      by (auto simp: deepCrawl_Inr)
    then have "pages r = map report_page_of allPages" by (simp add: build_report_def)
    then show "\<forall>p\<in>set (pages r). \<forall>u\<in>set (r_images p).
            (prefix ''http://'' u \<or> prefix ''https://'' u) \<and> \<not> prefix ''data:'' u"
      using report_page_images_http is_http_url_not_data
      by (auto simp: is_http_url_def)
  qed
  from 1 sortedImages_http 3 4 5 show ?thesis by blast
qed

theorem report_images_are_http_witness:
  "map img_url (images (extractPageContent demo_runtime demo_image_page))
     = [''https://cdn.example.com/b.jpg'', ''https://example.com/img/a.png'',
        ''https://example.com/img/relative.png'']
   \<and> list_all is_http_url
        (map img_url (images (extractPageContent demo_runtime demo_image_page)))
   \<and> (\<exists>r. deepCrawl demo_runtime (web_of [(''https://example.com/'', demo_image_page)])
             (demo_clock 1000) ''example.com'' = Inr r
          \<and> map r_images (pages r)
              = [[''https://cdn.example.com/b.jpg'', ''https://example.com/img/a.png'',
                  ''https://example.com/img/relative.png'']]
          \<and> list_all (\<lambda>u. prefix ''http://'' u \<or> prefix ''https://'' u)
                (concat (map r_images (pages r))))"
proof -
  let ?W = "web_of [(''https://example.com/'', demo_image_page)]"
  have a: "map img_url (images (extractPageContent demo_runtime demo_image_page))
     = [''https://cdn.example.com/b.jpg'', ''https://example.com/img/a.png'',
        ''https://example.com/img/relative.png'']"
    by code_simp
  have "\<forall>i\<in>set (images (extractPageContent demo_runtime demo_image_page)). is_http_url (img_url i)"
    using report_images_are_http [where P = demo_runtime and d = demo_image_page] by blast
  then have b: "list_all is_http_url
        (map img_url (images (extractPageContent demo_runtime demo_image_page)))"
    by (simp add: list_all_iff)
  have "case deepCrawl demo_runtime ?W (demo_clock 1000) ''example.com'' of
          Inl e \<Rightarrow> False
        | Inr r \<Rightarrow> map r_images (pages r)
              = [[''https://cdn.example.com/b.jpg'', ''https://example.com/img/a.png'',
                  ''https://example.com/img/relative.png'']]"
    by code_simp
  then obtain r where r: "deepCrawl demo_runtime ?W (demo_clock 1000) ''example.com'' = Inr r"
    and im: "map r_images (pages r)
              = [[''https://cdn.example.com/b.jpg'', ''https://example.com/img/a.png'',
                  ''https://example.com/img/relative.png'']]"
    by (auto split: sum.splits)
  from report_images_are_http [where P = demo_runtime and W = ?W and clk = "demo_clock 1000"
      and input = "''example.com''" and r = r] r
  have "\<forall>p\<in>set (pages r). \<forall>u\<in>set (r_images p).
            (prefix ''http://'' u \<or> prefix ''https://'' u) \<and> \<not> prefix ''data:'' u"
    by blast
  then have c: "list_all (\<lambda>u. prefix ''http://'' u \<or> prefix ''https://'' u)
                (concat (map r_images (pages r)))"
    by (auto simp: list_all_iff)
  from a b r im c show ?thesis by (intro conjI exI [of _ r]) simp_all
qed

text \<open>
  C3 as stated has every entry parse as an absolute http(s) URL. An image whose source is
  the string \<^verbatim>\<open>https://\<close> is not resolved (it has the prefix already), passes the three
  prefix tests and is reported, and the parser rejects it, with or without a base.
\<close>

theorem unparseable_image_counterexample:
  "images (extractPageContent demo_runtime demo_bad_image_page)
     = [\<lparr>img_url = ''https://'', img_alt = [], img_width = 0, img_height = 0\<rparr>]
   \<and> map_sum id (map r_images \<circ> pages)
        (deepCrawl demo_runtime (web_of [(''https://example.com/'', demo_bad_image_page)])
           (demo_clock 1000) ''example.com'')
      = Inr [[''https://'']]
   \<and> url_parse demo_runtime ''https://'' None = None
   \<and> url_parse demo_runtime ''https://'' (Some ''https://example.com/'') = None"
  by code_simp

text \<open>
  C10. For every page, the target of a \<^verbatim>\<open>tel:\<close> anchor (the \<^verbatim>\<open>href\<close> without the prefix,
  trimmed, when that is not empty) is among the page's \<^verbatim>\<open>phones\<close>, and the target of a
  \<^verbatim>\<open>mailto:\<close> anchor (the \<^verbatim>\<open>href\<close> without the prefix, up to the first \<^verbatim>\<open>?\<close>, when
  that is not empty) is among its \<^verbatim>\<open>emails\<close>, with no condition on digits or on the shape
  of the address: \<^verbatim>\<open>phones\<close> is the deduplicated union of the body-text matches, which
  alone went through the 8-digit filter, and of the anchor targets, and likewise for
  \<^verbatim>\<open>emails\<close>. In the report of a crawl, \<^verbatim>\<open>global.phones\<close> and \<^verbatim>\<open>global.emails\<close> are,
  without duplicates, exactly the phones and the emails of the crawled pages (the seed and
  the links of the visited prefix of the queue that loaded, which are the pages of the
  report), so the anchor targets of the seed and of every crawled subpage are in them.
\<close>

theorem tel_mailto_unfiltered:
  "(Some h \<in> set (anchor_hrefs d) \<and> prefix ''tel:'' h \<and> trim (drop 4 h) \<noteq> [] \<longrightarrow>
       trim (drop 4 h) \<in> set (phones (extractPageContent P d)))
   \<and> (Some h \<in> set (anchor_hrefs d) \<and> prefix ''mailto:'' h
        \<and> split_first CHR ''?'' (drop 7 h) \<noteq> [] \<longrightarrow>
       split_first CHR ''?'' (drop 7 h) \<in> set (emails (extractPageContent P d)))
   \<and> set (phones (extractPageContent P d))
        = set (extractPhones P (body_innerText d)) \<union> set (tel_entries d)
   \<and> set (emails (extractPageContent P d))
        = set (extractEmails P (body_innerText d)) \<union> set (mailto_entries d)
   \<and> distinct (phones (extractPageContent P d)) \<and> distinct (emails (extractPageContent P d))
   \<and> (\<forall>p\<in>set (extractPhones P body). 8 \<le> length (filter is_digit p))
   \<and> (deepCrawl P W clk input = Inr r \<and> normalizeUrl P input = Inr t
        \<and> W (href t) = Loaded home \<and> discoverLinks P home = Inr ls \<longrightarrow>
        (\<exists>n cs. visit_batch P W (take n (uniqueLinks_of (href t) ls)) = Inr cs
           \<and> pages r = map report_page_of (extractPageContent P home # cs)
           \<and> set cs = {extractPageContent P d' | k d'.
                          k \<in> set (take n (uniqueLinks_of (href t) ls)) \<and> W k = Loaded d'}
           \<and> set (global_phones r)
                = (\<Union>pc\<in>set (extractPageContent P home # cs). set (phones pc))
           \<and> set (global_emails r)
                = (\<Union>pc\<in>set (extractPageContent P home # cs). set (emails pc))
           \<and> distinct (global_phones r) \<and> distinct (global_emails r)
           \<and> (\<forall>d' h'. (d' = home
                         \<or> (\<exists>k\<in>set (take n (uniqueLinks_of (href t) ls)). W k = Loaded d'))
                   \<and> Some h' \<in> set (anchor_hrefs d') \<and> prefix ''tel:'' h'
                   \<and> trim (drop 4 h') \<noteq> []
                 \<longrightarrow> trim (drop 4 h') \<in> set (global_phones r))
           \<and> (\<forall>d' h'. (d' = home
                         \<or> (\<exists>k\<in>set (take n (uniqueLinks_of (href t) ls)). W k = Loaded d'))
                   \<and> Some h' \<in> set (anchor_hrefs d') \<and> prefix ''mailto:'' h'
                   \<and> split_first CHR ''?'' (drop 7 h') \<noteq> []
                 \<longrightarrow> split_first CHR ''?'' (drop 7 h') \<in> set (global_emails r))))"
proof -
  have 1: "Some h \<in> set (anchor_hrefs d) \<and> prefix ''tel:'' h \<and> trim (drop 4 h) \<noteq> [] \<longrightarrow>
       trim (drop 4 h) \<in> set (phones (extractPageContent P d))"
    using tel_entries_member [of h d] by (simp add: phones_extractPageContent)
  have 2: "Some h \<in> set (anchor_hrefs d) \<and> prefix ''mailto:'' h
        \<and> split_first CHR ''?'' (drop 7 h) \<noteq> [] \<longrightarrow>
       split_first CHR ''?'' (drop 7 h) \<in> set (emails (extractPageContent P d))"
    using mailto_entries_member [of h d] by (simp add: emails_extractPageContent)
  have 7: "deepCrawl P W clk input = Inr r \<and> normalizeUrl P input = Inr t
        \<and> W (href t) = Loaded home \<and> discoverLinks P home = Inr ls \<longrightarrow>
        (\<exists>n cs. visit_batch P W (take n (uniqueLinks_of (href t) ls)) = Inr cs
           \<and> pages r = map report_page_of (extractPageContent P home # cs)
           \<and> set cs = {extractPageContent P d' | k d'.
                          k \<in> set (take n (uniqueLinks_of (href t) ls)) \<and> W k = Loaded d'}
           \<and> set (global_phones r)
                = (\<Union>pc\<in>set (extractPageContent P home # cs). set (phones pc))
           \<and> set (global_emails r)
                = (\<Union>pc\<in>set (extractPageContent P home # cs). set (emails pc))
           \<and> distinct (global_phones r) \<and> distinct (global_emails r)
           \<and> (\<forall>d' h'. (d' = home
                         \<or> (\<exists>k\<in>set (take n (uniqueLinks_of (href t) ls)). W k = Loaded d'))
                   \<and> Some h' \<in> set (anchor_hrefs d') \<and> prefix ''tel:'' h'
                   \<and> trim (drop 4 h') \<noteq> []
                 \<longrightarrow> trim (drop 4 h') \<in> set (global_phones r))
           \<and> (\<forall>d' h'. (d' = home
                         \<or> (\<exists>k\<in>set (take n (uniqueLinks_of (href t) ls)). W k = Loaded d'))
                   \<and> Some h' \<in> set (anchor_hrefs d') \<and> prefix ''mailto:'' h'
                   \<and> split_first CHR ''?'' (drop 7 h') \<noteq> []
                 \<longrightarrow> split_first CHR ''?'' (drop 7 h') \<in> set (global_emails r)))"
  proof
    assume a: "deepCrawl P W clk input = Inr r \<and> normalizeUrl P input = Inr t
        \<and> W (href t) = Loaded home \<and> discoverLinks P home = Inr ls"
    let ?q = "uniqueLinks_of (href t) ls"
    from a deepCrawl_report [of P W clk input r t home ls] obtain n cs where
      n: "visit_batch P W (take n ?q) = Inr cs"
      and r: "r = build_report (hostname t) (extractSocials P home)
                    (extractPageContent P home # cs) (elapsed_at_end clk)"
      by blast
    let ?all = "extractPageContent P home # cs"
    have pg: "pages r = map report_page_of ?all" by (simp add: r build_report_def)
    have el: "set cs = {extractPageContent P d' | k d'. k \<in> set (take n ?q) \<and> W k = Loaded d'}"
      using n by (rule visit_batch_elems)
    have gp: "set (global_phones r) = (\<Union>pc\<in>set ?all. set (phones pc))"
      by (simp add: r build_report_def set_foldl_set_add)
    have ge: "set (global_emails r) = (\<Union>pc\<in>set ?all. set (emails pc))"
      by (simp add: r build_report_def set_foldl_set_add)
    have di: "distinct (global_phones r) \<and> distinct (global_emails r)"
      by (simp add: r build_report_def distinct_foldl_set_add)
    have crawled: "\<And>d'. d' = home \<or> (\<exists>k\<in>set (take n ?q). W k = Loaded d') \<Longrightarrow>
        extractPageContent P d' \<in> set ?all"
      using el by auto
    have tel: "\<forall>d' h'. (d' = home \<or> (\<exists>k\<in>set (take n ?q). W k = Loaded d'))
                   \<and> Some h' \<in> set (anchor_hrefs d') \<and> prefix ''tel:'' h'
                   \<and> trim (drop 4 h') \<noteq> []
                 \<longrightarrow> trim (drop 4 h') \<in> set (global_phones r)"
    proof (intro allI impI)
      fix d' h'
      assume b: "(d' = home \<or> (\<exists>k\<in>set (take n ?q). W k = Loaded d'))
                   \<and> Some h' \<in> set (anchor_hrefs d') \<and> prefix ''tel:'' h'
                   \<and> trim (drop 4 h') \<noteq> []"
      then have "trim (drop 4 h') \<in> set (phones (extractPageContent P d'))"
        using tel_entries_member [of h' d'] by (simp add: phones_extractPageContent)
      moreover from b have "extractPageContent P d' \<in> set ?all" using crawled by blast
      ultimately show "trim (drop 4 h') \<in> set (global_phones r)"
        unfolding gp by blast
    qed
    have mail: "\<forall>d' h'. (d' = home \<or> (\<exists>k\<in>set (take n ?q). W k = Loaded d'))
                   \<and> Some h' \<in> set (anchor_hrefs d') \<and> prefix ''mailto:'' h'
                   \<and> split_first CHR ''?'' (drop 7 h') \<noteq> []
                 \<longrightarrow> split_first CHR ''?'' (drop 7 h') \<in> set (global_emails r)"
    proof (intro allI impI)
      fix d' h'
      assume b: "(d' = home \<or> (\<exists>k\<in>set (take n ?q). W k = Loaded d'))
                   \<and> Some h' \<in> set (anchor_hrefs d') \<and> prefix ''mailto:'' h'
                   \<and> split_first CHR ''?'' (drop 7 h') \<noteq> []"
      then have "split_first CHR ''?'' (drop 7 h') \<in> set (emails (extractPageContent P d'))"
        using mailto_entries_member [of h' d'] by (simp add: emails_extractPageContent)
      moreover from b have "extractPageContent P d' \<in> set ?all" using crawled by blast
      ultimately show "split_first CHR ''?'' (drop 7 h') \<in> set (global_emails r)"
        unfolding ge by blast
    qed
    from n pg el gp ge di tel mail
    show "\<exists>n cs. visit_batch P W (take n (uniqueLinks_of (href t) ls)) = Inr cs
           \<and> pages r = map report_page_of (extractPageContent P home # cs)
           \<and> set cs = {extractPageContent P d' | k d'.
                          k \<in> set (take n (uniqueLinks_of (href t) ls)) \<and> W k = Loaded d'}
           \<and> set (global_phones r)
                = (\<Union>pc\<in>set (extractPageContent P home # cs). set (phones pc))
           \<and> set (global_emails r)
                = (\<Union>pc\<in>set (extractPageContent P home # cs). set (emails pc))
           \<and> distinct (global_phones r) \<and> distinct (global_emails r)
           \<and> (\<forall>d' h'. (d' = home
                         \<or> (\<exists>k\<in>set (take n (uniqueLinks_of (href t) ls)). W k = Loaded d'))
                   \<and> Some h' \<in> set (anchor_hrefs d') \<and> prefix ''tel:'' h'
                   \<and> trim (drop 4 h') \<noteq> []
                 \<longrightarrow> trim (drop 4 h') \<in> set (global_phones r))
           \<and> (\<forall>d' h'. (d' = home
                         \<or> (\<exists>k\<in>set (take n (uniqueLinks_of (href t) ls)). W k = Loaded d'))
                   \<and> Some h' \<in> set (anchor_hrefs d') \<and> prefix ''mailto:'' h'
                   \<and> split_first CHR ''?'' (drop 7 h') \<noteq> []
                 \<longrightarrow> split_first CHR ''?'' (drop 7 h') \<in> set (global_emails r))"
      by blast
  qed
  from 1 2 phones_extractPageContent [of P d] emails_extractPageContent [of P d]
    distinct_contacts [of P d] extractPhones_digits [of P body] 7
  show ?thesis by blast
qed

theorem tel_mailto_unfiltered_witness:
  "''123'' \<in> set (phones (extractPageContent demo_runtime
                              (demo_page ''https://example.com/'' [Some ''tel:123'', Some ''/c''])))
   \<and> length (filter is_digit ''123'') < 8
   \<and> (\<exists>r. deepCrawl demo_runtime (web_of demo_contact_site) (demo_clock 1000) ''example.com''
            = Inr r
          \<and> map r_url (pages r) = [''https://example.com/'', ''https://example.com/c'']
          \<and> ''456'' \<in> set (global_phones r)
          \<and> ''not-an-email'' \<in> set (global_emails r)
          \<and> global_phones r = [''123'', ''456'']
          \<and> global_emails r = [''not-an-email''])"
proof -
  let ?home = "demo_page ''https://example.com/'' [Some ''tel:123'', Some ''/c'']"
  let ?sub = "demo_page ''https://example.com/c''
                [Some ''tel:456'', Some ''mailto:not-an-email?subject=hi'']"
  let ?W = "web_of demo_contact_site"
  let ?t = "\<lparr>href = ''https://example.com/'', protocol = ''https:'', hostname = ''example.com''\<rparr>"
  have a: "Some ''tel:123'' \<in> set (anchor_hrefs ?home)" by (simp add: demo_page_def)
  have b: "prefix ''tel:'' ''tel:123'' \<and> trim (drop 4 ''tel:123'') = ''123''" by code_simp
  have e: "length (filter is_digit ''123'') < 8" by code_simp
  from tel_mailto_unfiltered [where h = "''tel:123''" and d = ?home and P = demo_runtime,
      THEN conjunct1] a b
  have 1: "''123'' \<in> set (phones (extractPageContent demo_runtime ?home))" by simp
  have nz: "normalizeUrl demo_runtime ''example.com'' = Inr ?t" by code_simp
  have wh: "?W (href ?t) = Loaded ?home" by (simp add: web_of_def demo_contact_site_def)
  have ws: "?W ''https://example.com/c'' = Loaded ?sub"
    by (simp add: web_of_def demo_contact_site_def)
  have dl: "discoverLinks demo_runtime ?home = Inr [''https://example.com/c'']" by code_simp
  have q: "uniqueLinks_of (href ?t) [''https://example.com/c''] = [''https://example.com/c'']"
    by code_simp
  have "case deepCrawl demo_runtime ?W (demo_clock 1000) ''example.com'' of
          Inl e \<Rightarrow> False
        | Inr r \<Rightarrow> map r_url (pages r) = [''https://example.com/'', ''https://example.com/c'']
                  \<and> global_phones r = [''123'', ''456'']
                  \<and> global_emails r = [''not-an-email'']"
    by code_simp
  then obtain r where r: "deepCrawl demo_runtime ?W (demo_clock 1000) ''example.com'' = Inr r"
    and pg: "map r_url (pages r) = [''https://example.com/'', ''https://example.com/c'']"
    and gp: "global_phones r = [''123'', ''456'']"
    and ge: "global_emails r = [''not-an-email'']"
    by (auto split: sum.splits)
  note last = tel_mailto_unfiltered [where P = demo_runtime and W = ?W
      and clk = "demo_clock 1000" and input = "''example.com''" and r = r and t = ?t
      and home = ?home and ls = "[''https://example.com/c'']",
      THEN conjunct2, THEN conjunct2, THEN conjunct2, THEN conjunct2, THEN conjunct2,
      THEN conjunct2, THEN conjunct2, THEN mp, OF conjI [OF r conjI [OF nz conjI [OF wh dl]]]]
  from last obtain n cs where all:
    "visit_batch demo_runtime ?W
        (take n (uniqueLinks_of (href ?t) [''https://example.com/c''])) = Inr cs
     \<and> pages r = map report_page_of (extractPageContent demo_runtime ?home # cs)
     \<and> set cs = {extractPageContent demo_runtime d' | k d'.
                k \<in> set (take n (uniqueLinks_of (href ?t) [''https://example.com/c'']))
                \<and> ?W k = Loaded d'}
     \<and> set (global_phones r)
          = (\<Union>pc\<in>set (extractPageContent demo_runtime ?home # cs). set (phones pc))
     \<and> set (global_emails r)
          = (\<Union>pc\<in>set (extractPageContent demo_runtime ?home # cs). set (emails pc))
     \<and> distinct (global_phones r) \<and> distinct (global_emails r)
     \<and> (\<forall>d' h'. (d' = ?home
                \<or> (\<exists>k\<in>set (take n (uniqueLinks_of (href ?t) [''https://example.com/c''])).
                      ?W k = Loaded d'))
              \<and> Some h' \<in> set (anchor_hrefs d') \<and> prefix ''tel:'' h'
              \<and> trim (drop 4 h') \<noteq> []
              \<longrightarrow> trim (drop 4 h') \<in> set (global_phones r))
     \<and> (\<forall>d' h'. (d' = ?home
                \<or> (\<exists>k\<in>set (take n (uniqueLinks_of (href ?t) [''https://example.com/c''])).
                      ?W k = Loaded d'))
              \<and> Some h' \<in> set (anchor_hrefs d') \<and> prefix ''mailto:'' h'
              \<and> split_first CHR ''?'' (drop 7 h') \<noteq> []
              \<longrightarrow> split_first CHR ''?'' (drop 7 h') \<in> set (global_emails r))"
    by (elim exE)
  note pages = all [THEN conjunct2, THEN conjunct1]
  note el = all [THEN conjunct2, THEN conjunct2, THEN conjunct1]
  note tel = all [THEN conjunct2, THEN conjunct2, THEN conjunct2, THEN conjunct2,
      THEN conjunct2, THEN conjunct2, THEN conjunct2, THEN conjunct1]
  note mail = all [THEN conjunct2, THEN conjunct2, THEN conjunct2, THEN conjunct2,
      THEN conjunct2, THEN conjunct2, THEN conjunct2, THEN conjunct2]
  from pg pages have "cs \<noteq> []" by auto
  then obtain c where "c \<in> set cs" by (cases cs) auto
  then have "\<exists>k d'. c = extractPageContent demo_runtime d'
      \<and> k \<in> set (take n [''https://example.com/c'']) \<and> ?W k = Loaded d'"
    unfolding el q by (simp only: mem_Collect_eq)
  then obtain k where k: "k \<in> set (take n [''https://example.com/c''])" by (elim exE conjE)
  then have "k \<in> set [''https://example.com/c'']" by (rule in_set_takeD)
  then have "k = ''https://example.com/c''" by simp
  with k have km: "''https://example.com/c'' \<in> set (take n [''https://example.com/c''])" by simp
  have sub: "\<exists>k\<in>set (take n (uniqueLinks_of (href ?t) [''https://example.com/c''])).
      ?W k = Loaded ?sub"
    unfolding q
    by (rule bexI [where P = "\<lambda>k. ?W k = Loaded ?sub" and x = "''https://example.com/c''",
          OF ws km])
  have s1: "Some ''tel:456'' \<in> set (anchor_hrefs ?sub)" by (simp add: demo_page_def)
  have s2: "prefix ''tel:'' ''tel:456''" by code_simp
  have s2': "trim (drop 4 ''tel:456'') = ''456''" by code_simp
  have s2'': "trim (drop 4 ''tel:456'') \<noteq> []" unfolding s2' by simp
  have s3: "Some ''mailto:not-an-email?subject=hi'' \<in> set (anchor_hrefs ?sub)"
    by (simp add: demo_page_def)
  have s4: "prefix ''mailto:'' ''mailto:not-an-email?subject=hi''" by code_simp
  have s4': "split_first CHR ''?'' (drop 7 ''mailto:not-an-email?subject=hi'') = ''not-an-email''"
    by code_simp
  have s4'': "split_first CHR ''?'' (drop 7 ''mailto:not-an-email?subject=hi'') \<noteq> []"
    unfolding s4' by simp
  from tel [THEN spec, THEN spec, THEN mp, OF conjI [OF disjI2 [OF sub] conjI [OF s1 conjI [OF s2 s2'']]]]
  have 2: "''456'' \<in> set (global_phones r)" unfolding s2' .
  from mail [THEN spec, THEN spec, THEN mp, OF conjI [OF disjI2 [OF sub] conjI [OF s3 conjI [OF s4 s4'']]]]
  have 3: "''not-an-email'' \<in> set (global_emails r)" unfolding s4' .
  from 1 e r pg 2 3 gp ge show ?thesis by (intro conjI exI [of _ r])
qed

text \<open>
  C8. When a page contains anchors to both \<^verbatim>\<open>http://x.com/a/#frag\<close> and
  \<^verbatim>\<open>http://x.com/a\<close> (which the parser resolves to themselves, on the host of the page),
  both normalize to \<^verbatim>\<open>http://x.com/a\<close>, normalizing that again changes nothing, and the
  discovered link set, which has no duplicates, contains \<^verbatim>\<open>http://x.com/a\<close> exactly once
  and not the spelling with the fragment.
\<close>

theorem normalization_dedups_spellings:
  assumes "url_parse P (location_href d) None = Some cu"
    and "Some ''http://x.com/a/#frag'' \<in> set (anchor_hrefs d)"
    and "Some ''http://x.com/a'' \<in> set (anchor_hrefs d)"
    and "url_parse P ''http://x.com/a/#frag'' (Some (location_href d)) = Some u1"
    and "href u1 = ''http://x.com/a/#frag''" and "hostname u1 = hostname cu"
    and "url_parse P ''http://x.com/a'' (Some (location_href d)) = Some u2"
    and "href u2 = ''http://x.com/a''" and "hostname u2 = hostname cu"
  shows "cleanUrl ''http://x.com/a/#frag'' = ''http://x.com/a''
    \<and> cleanUrl ''http://x.com/a'' = ''http://x.com/a''
    \<and> cleanUrl (cleanUrl ''http://x.com/a/#frag'') = cleanUrl ''http://x.com/a/#frag''
    \<and> (\<exists>ls. discoverLinks P d = Inr ls \<and> distinct ls
           \<and> count_list ls ''http://x.com/a'' = 1
           \<and> ''http://x.com/a/#frag'' \<notin> set ls)"
proof -
  let ?cur = "location_href d"
  let ?ls = "foldl (discover_step P ?cur (hostname cu)) [] (anchor_hrefs d)"
  have c1: "cleanUrl ''http://x.com/a/#frag'' = ''http://x.com/a''" by code_simp
  have c2: "cleanUrl ''http://x.com/a'' = ''http://x.com/a''" by code_simp
  have nd: "\<not> has_denied_extension ''http://x.com/a''" by code_simp
  have ns1: "\<not> skipped_href ''http://x.com/a/#frag''" by code_simp
  have ls: "discoverLinks P d = Inr ?ls"
    using assms(1) by (simp add: discoverLinks_Inr)
  have int1: "isInternalUrl P ?cur (hostname cu) (href u1)"
    using assms(4-6) by (simp add: isInternalUrl_def)
  have "cleanUrl (href u1) \<in> set ?ls"
    using assms(2) _ ns1 assms(4) int1
    by (rule discover_fold_member) (simp_all add: assms(5) c1 nd)
  then have m: "''http://x.com/a'' \<in> set ?ls" by (simp add: assms(5) c1)
  have dist: "distinct ?ls" by (rule discover_fold_distinct) simp
  have cnt: "count_list ?ls ''http://x.com/a'' = 1"
    using dist m by (rule count_list_distinct)
  have nofrag: "''http://x.com/a/#frag'' \<notin> set ?ls"
  proof
    assume "''http://x.com/a/#frag'' \<in> set ?ls"
    from discover_fold_provenance [OF this]
    have "\<exists>u::url. ''http://x.com/a/#frag'' = cleanUrl (href u)" by auto
    then obtain u :: url where e: "''http://x.com/a/#frag'' = cleanUrl (href u)" by blast
    have "CHR ''#'' \<in> set ''http://x.com/a/#frag''" by simp
    with e cleanUrl_no_hash [of "href u"] show False by simp
  qed
  from c1 c2 ls dist cnt nofrag show ?thesis by simp
qed

theorem normalization_dedups_spellings_witness:
  "discoverLinks demo_runtime
      (demo_page ''http://x.com/'' [Some ''http://x.com/a/#frag'', Some ''http://x.com/a''])
     = Inr [''http://x.com/a'']
   \<and> (\<exists>ls. discoverLinks demo_runtime
               (demo_page ''http://x.com/'' [Some ''http://x.com/a/#frag'', Some ''http://x.com/a''])
             = Inr ls \<and> count_list ls ''http://x.com/a'' = 1)"
proof -
  let ?d = "demo_page ''http://x.com/'' [Some ''http://x.com/a/#frag'', Some ''http://x.com/a'']"
  have loc: "location_href ?d = ''http://x.com/''" by (simp add: demo_page_def)
  have a: "url_parse demo_runtime (location_href ?d) None
     = Some \<lparr>href = ''http://x.com/'', protocol = ''http:'', hostname = ''x.com''\<rparr>"
    unfolding loc by code_simp
  have b: "Some ''http://x.com/a/#frag'' \<in> set (anchor_hrefs ?d)"
    and c: "Some ''http://x.com/a'' \<in> set (anchor_hrefs ?d)"
    by (simp_all add: demo_page_def)
  have p1: "url_parse demo_runtime ''http://x.com/a/#frag'' (Some (location_href ?d))
     = Some \<lparr>href = ''http://x.com/a/#frag'', protocol = ''http:'', hostname = ''x.com''\<rparr>"
    unfolding loc by code_simp
  have p2: "url_parse demo_runtime ''http://x.com/a'' (Some (location_href ?d))
     = Some \<lparr>href = ''http://x.com/a'', protocol = ''http:'', hostname = ''x.com''\<rparr>"
    unfolding loc by code_simp
  have e: "discoverLinks demo_runtime ?d = Inr [''http://x.com/a'']"
    by code_simp
  from normalization_dedups_spellings [OF a b c p1 _ _ p2] e
  show ?thesis by simp
qed

text \<open>
  C7, as the code has it. The queue of subpages has at most \<open>MAX_PAGES = 10\<close> entries.
  Every link of it is the normalized form of a resolved anchor whose host name equals the
  host name of the page the links are read from (\<^verbatim>\<open>window.location\<close>, where the seed
  navigation ended), and does not end in a denylisted extension; an anchor that resolves
  to another host, or whose normalized form ends in a denylisted extension, adds nothing.
  The instance is the scenario with 15 internal links, 2 links to other hosts and 3 links
  to PDF files: the 15 internal links are discovered and the first 10 are queued.
\<close>

theorem discovery_keeps_page_host:
  assumes "discoverLinks P d = Inr ls"
  shows "length (uniqueLinks_of baseUrl ls) \<le> MAX_PAGES \<and> MAX_PAGES = 10
    \<and> (\<exists>cu. url_parse P (location_href d) None = Some cu
          \<and> (\<forall>l\<in>set (uniqueLinks_of baseUrl ls).
                \<exists>h u u'. Some h \<in> set (anchor_hrefs d)
                  \<and> url_parse P h (Some (location_href d)) = Some u
                  \<and> url_parse P (href u) (Some (location_href d)) = Some u'
                  \<and> hostname u' = hostname cu
                  \<and> l = cleanUrl (href u)
                  \<and> \<not> has_denied_extension l))
    \<and> (\<forall>cur host links h u.
          url_parse P h (Some cur) = Some u
          \<and> (\<not> isInternalUrl P cur host (href u) \<or> has_denied_extension (cleanUrl (href u)))
          \<longrightarrow> discover_step P cur host links (Some h) = links)"
proof -
  from assms obtain cu where cu: "url_parse P (location_href d) None = Some cu"
    and ls: "ls = foldl (discover_step P (location_href d) (hostname cu)) [] (anchor_hrefs d)"
    unfolding discoverLinks_Inr by blast
  have prov: "\<forall>l\<in>set (uniqueLinks_of baseUrl ls).
                \<exists>h u u'. Some h \<in> set (anchor_hrefs d)
                  \<and> url_parse P h (Some (location_href d)) = Some u
                  \<and> url_parse P (href u) (Some (location_href d)) = Some u'
                  \<and> hostname u' = hostname cu
                  \<and> l = cleanUrl (href u)
                  \<and> \<not> has_denied_extension l"
  proof
    fix l assume "l \<in> set (uniqueLinks_of baseUrl ls)"
    with set_uniqueLinks_of have "l \<in> set ls" by blast
    then have "l \<in> set (foldl (discover_step P (location_href d) (hostname cu)) [] (anchor_hrefs d))"
      by (simp add: ls)
    from discover_fold_provenance [OF this]
    obtain h u where h: "Some h \<in> set (anchor_hrefs d)"
      and u: "url_parse P h (Some (location_href d)) = Some u"
      and int: "isInternalUrl P (location_href d) (hostname cu) (href u)"
      and l: "l = cleanUrl (href u)" and nd: "\<not> has_denied_extension l"
      by auto
    from int obtain u' where "url_parse P (href u) (Some (location_href d)) = Some u'"
      and "hostname u' = hostname cu"
      by (auto simp: isInternalUrl_def split: option.splits)
    with h u l nd show "\<exists>h u u'. Some h \<in> set (anchor_hrefs d)
                  \<and> url_parse P h (Some (location_href d)) = Some u
                  \<and> url_parse P (href u) (Some (location_href d)) = Some u'
                  \<and> hostname u' = hostname cu
                  \<and> l = cleanUrl (href u)
                  \<and> \<not> has_denied_extension l"
      by blast
  qed
  have rej: "\<forall>cur host links h u.
          url_parse P h (Some cur) = Some u
          \<and> (\<not> isInternalUrl P cur host (href u) \<or> has_denied_extension (cleanUrl (href u)))
          \<longrightarrow> discover_step P cur host links (Some h) = links"
    by (auto simp: discover_step_def Let_def)
  have "MAX_PAGES = 10" by (simp add: MAX_PAGES_def)
  with length_uniqueLinks_of [of baseUrl ls] cu prov rej show ?thesis by blast
qed

theorem discovery_keeps_page_host_witness:
  "discoverLinks demo_runtime demo_scenario_page
     = Inr [''https://example.com/p1'', ''https://example.com/p2'', ''https://example.com/p3'',
            ''https://example.com/p4'', ''https://example.com/p5'', ''https://example.com/p6'',
            ''https://example.com/p7'', ''https://example.com/p8'', ''https://example.com/p9'',
            ''https://example.com/pa'', ''https://example.com/pb'', ''https://example.com/pc'',
            ''https://example.com/pd'', ''https://example.com/pe'', ''https://example.com/pf'']
   \<and> uniqueLinks_of ''https://example.com/''
        [''https://example.com/p1'', ''https://example.com/p2'', ''https://example.com/p3'',
         ''https://example.com/p4'', ''https://example.com/p5'', ''https://example.com/p6'',
         ''https://example.com/p7'', ''https://example.com/p8'', ''https://example.com/p9'',
         ''https://example.com/pa'', ''https://example.com/pb'', ''https://example.com/pc'',
         ''https://example.com/pd'', ''https://example.com/pe'', ''https://example.com/pf'']
     = [''https://example.com/p1'', ''https://example.com/p2'', ''https://example.com/p3'',
        ''https://example.com/p4'', ''https://example.com/p5'', ''https://example.com/p6'',
        ''https://example.com/p7'', ''https://example.com/p8'', ''https://example.com/p9'',
        ''https://example.com/pa'']
   \<and> length (uniqueLinks_of ''https://example.com/''
        [''https://example.com/p1'', ''https://example.com/p2'', ''https://example.com/p3'',
         ''https://example.com/p4'', ''https://example.com/p5'', ''https://example.com/p6'',
         ''https://example.com/p7'', ''https://example.com/p8'', ''https://example.com/p9'',
         ''https://example.com/pa'', ''https://example.com/pb'', ''https://example.com/pc'',
         ''https://example.com/pd'', ''https://example.com/pe'', ''https://example.com/pf'']) \<le> MAX_PAGES"
proof -
  let ?ls = "[''https://example.com/p1'', ''https://example.com/p2'', ''https://example.com/p3'',
            ''https://example.com/p4'', ''https://example.com/p5'', ''https://example.com/p6'',
            ''https://example.com/p7'', ''https://example.com/p8'', ''https://example.com/p9'',
            ''https://example.com/pa'', ''https://example.com/pb'', ''https://example.com/pc'',
            ''https://example.com/pd'', ''https://example.com/pe'', ''https://example.com/pf'']"
  have a: "discoverLinks demo_runtime demo_scenario_page = Inr ?ls"
    by code_simp
  have b: "uniqueLinks_of ''https://example.com/'' ?ls
     = [''https://example.com/p1'', ''https://example.com/p2'', ''https://example.com/p3'',
        ''https://example.com/p4'', ''https://example.com/p5'', ''https://example.com/p6'',
        ''https://example.com/p7'', ''https://example.com/p8'', ''https://example.com/p9'',
        ''https://example.com/pa'']"
    by code_simp
  from discovery_keeps_page_host [OF a, of "''https://example.com/''", THEN conjunct1]
  have c: "length (uniqueLinks_of ''https://example.com/'' ?ls) \<le> MAX_PAGES" .
  from a b c show ?thesis by (intro conjI)
qed

text \<open>
  C7 as stated compares with the host name of the crawl target. A seed \<^verbatim>\<open>example.com\<close>
  that redirects to \<^verbatim>\<open>https://www.example.com/\<close>: the link to \<^verbatim>\<open>/about\<close>, on the host
  \<^verbatim>\<open>www.example.com\<close>, is discovered, queued and visited, the link to
  \<^verbatim>\<open>https://example.com/contact\<close>, on the host of the crawl target, is not, and the
  report's \<^verbatim>\<open>domain\<close> is \<^verbatim>\<open>example.com\<close>.
\<close>

theorem cross_host_redirect_counterexample:
  "normalizeUrl demo_runtime ''example.com''
     = Inr \<lparr>href = ''https://example.com/'', protocol = ''https:'', hostname = ''example.com''\<rparr>
   \<and> web_of [(''https://example.com/'', demo_redirected_page),
              (''https://www.example.com/about'', demo_page ''https://www.example.com/about'' [])]
          ''https://example.com/'' = Loaded demo_redirected_page
   \<and> location_href demo_redirected_page = ''https://www.example.com/''
   \<and> anchor_hrefs demo_redirected_page = [Some ''/about'', Some ''https://example.com/contact'']
   \<and> discoverLinks demo_runtime demo_redirected_page = Inr [''https://www.example.com/about'']
   \<and> uniqueLinks_of ''https://example.com/'' [''https://www.example.com/about'']
        = [''https://www.example.com/about'']
   \<and> map_option hostname (url_parse demo_runtime ''https://www.example.com/about'' None)
        = Some ''www.example.com''
   \<and> map_option hostname (url_parse demo_runtime ''https://example.com/contact'' None)
        = Some ''example.com''
   \<and> map_sum id domain
         (deepCrawl demo_runtime
            (web_of [(''https://example.com/'', demo_redirected_page),
                     (''https://www.example.com/about'',
                      demo_page ''https://www.example.com/about'' [])])
            (demo_clock 1000) ''example.com'')
        = Inr ''example.com''
   \<and> map_sum id (map r_url \<circ> pages)
         (deepCrawl demo_runtime
            (web_of [(''https://example.com/'', demo_redirected_page),
                     (''https://www.example.com/about'',
                      demo_page ''https://www.example.com/about'' [])])
            (demo_clock 1000) ''example.com'')
        = Inr [''https://www.example.com/'', ''https://www.example.com/about'']"
  by code_simp

text \<open>
  C1 at concrete inputs. The seed \<^verbatim>\<open>example.com\<close> normalizes to
  \<^verbatim>\<open>https://example.com/\<close>; its link to \<^verbatim>\<open>/\<close> is discovered as \<^verbatim>\<open>https://example.com\<close>,
  which the filter of step 2 (different from \<^verbatim>\<open>baseUrl\<close> and from \<^verbatim>\<open>baseUrl + '/'\<close>)
  lets through, so the seed page is queued, visited again and reported twice. And for a
  seed \<^verbatim>\<open>example.com/old\<close> that redirects to \<^verbatim>\<open>https://example.com/new\<close>, the page's link
  to itself is queued: the filter compares with the URL before the redirect.
\<close>

theorem seed_url_in_queue:
  "normalizeUrl demo_runtime ''example.com''
     = Inr \<lparr>href = ''https://example.com/'', protocol = ''https:'', hostname = ''example.com''\<rparr>
   \<and> discoverLinks demo_runtime (demo_page ''https://example.com/'' [Some ''/'', Some ''/a''])
        = Inr [''https://example.com'', ''https://example.com/a'']
   \<and> uniqueLinks_of ''https://example.com/'' [''https://example.com'', ''https://example.com/a'']
        = [''https://example.com'', ''https://example.com/a'']
   \<and> cleanUrl ''https://example.com/'' = ''https://example.com''
   \<and> url_parse demo_runtime ''https://example.com'' None
        = url_parse demo_runtime ''https://example.com/'' None
   \<and> map_sum id (map r_url \<circ> pages)
         (deepCrawl demo_runtime
            (web_of [(''https://example.com/'',
                      demo_page ''https://example.com/'' [Some ''/'', Some ''/a'']),
                     (''https://example.com'',
                      demo_page ''https://example.com/'' [Some ''/'', Some ''/a''])])
            (demo_clock 1000) ''example.com'')
        = Inr [''https://example.com/'', ''https://example.com/'']
   \<and> normalizeUrl demo_runtime ''example.com/old''
        = Inr \<lparr>href = ''https://example.com/old'', protocol = ''https:'', hostname = ''example.com''\<rparr>
   \<and> discoverLinks demo_runtime (demo_page ''https://example.com/new'' [Some ''/new''])
        = Inr [''https://example.com/new'']
   \<and> uniqueLinks_of ''https://example.com/old'' [''https://example.com/new'']
        = [''https://example.com/new'']"
  by code_simp

end
